theory Spec2Isabelle
  imports Main "HOL-Library.Word" "HOL-Library.Signed_Division"
begin

unbundle bit_operations_syntax

section \<open>Constants and data model (defs.h)\<close>

text \<open>
  A C \<^verbatim>\<open>int\<close> is a 32-bit word; comparisons of \<^verbatim>\<open>int\<close>s read it as two's complement
  (\<open>sint\<close>); \<open>+\<close>, \<open>-\<close> and \<open>*\<close> wrap around.
  A pointer is an address; the address 0 is \<^verbatim>\<open>NULL\<close>.
\<close>

type_synonym int32 = "32 word"
type_synonym ptr = nat

text \<open>
  \<open>c_div\<close> is the \<^verbatim>\<open>/\<close> of two C ints: the quotient truncated towards zero. (Its
  divisors in this program are the constants 4 and \<open>PARAM_SPEED_MODIFIER\<close>.)
\<close>

definition c_div :: "int32 \<Rightarrow> int32 \<Rightarrow> int32" where
  "c_div a b = word_of_int (sint a sdiv sint b)"

definition NULL :: ptr where
  "NULL = 0"

definition MODE_TERMINATE :: int32 where
  "MODE_TERMINATE = 0"

definition MODE_DISABLED :: int32 where
  "MODE_DISABLED = 1"

definition MODE_SLOW :: int32 where
  "MODE_SLOW = 2"

definition MODE_STANDARD :: int32 where
  "MODE_STANDARD = 3"

definition MODE_FAST :: int32 where
  "MODE_FAST = 4"

definition PRIORITY_HIGH :: int32 where
  "PRIORITY_HIGH = 0xF000"

definition PRIORITY_MED :: int32 where
  "PRIORITY_MED = 0xA000"

definition PRIORITY_LOW :: int32 where
  "PRIORITY_LOW = 0x8000"

definition PRIORITY_IGN :: int32 where
  "PRIORITY_IGN = 0x0000"

definition EVENT_OK :: int32 where
  "EVENT_OK = PRIORITY_IGN OR 0x0000"

definition EVENT_LOW :: int32 where
  "EVENT_LOW = PRIORITY_MED OR 0x0001"

definition EVENT_INSUFFICIENT :: int32 where
  "EVENT_INSUFFICIENT = PRIORITY_HIGH OR 0x0002"

definition EVENT_CAPACITY :: int32 where
  "EVENT_CAPACITY = PRIORITY_MED OR 0x0003"

definition EVENT_HIGH :: int32 where
  "EVENT_HIGH = PRIORITY_MED OR 0x0004"

definition EVENT_PRODUCED :: int32 where
  "EVENT_PRODUCED = PRIORITY_IGN OR 0x0010"

definition PARAM_MANAGER_WAIT :: int32 where
  "PARAM_MANAGER_WAIT = 10"

definition PARAM_SYSTEM_WAIT :: int32 where
  "PARAM_SYSTEM_WAIT = 500"

definition PARAM_RESOURCE_LOW :: int32 where
  "PARAM_RESOURCE_LOW = 2"

definition PARAM_RESOURCE_HIGH :: int32 where
  "PARAM_RESOURCE_HIGH = 5"

definition PARAM_SPEED_MODIFIER :: int32 where
  "PARAM_SPEED_MODIFIER = 1"

definition SINGLE_THREAD_MODE :: int32 where
  "SINGLE_THREAD_MODE = 0"

text \<open>
  The structs. The semaphores carry no data and are left out. A record field name is used
  once, so the \<^verbatim>\<open>name\<close> of a \<^verbatim>\<open>System\<close> is \<open>sname\<close>.
\<close>

record Resource =
  name :: string
  amount :: int32
  max_capacity :: int32

record Recipe =
  "input" :: ptr
  "output" :: ptr
  input_amount :: int32
  output_amount :: int32
  processing_time :: int32

record System =
  sname :: string
  recipe :: Recipe
  mode :: int32

record Event =
  system :: ptr
  resource :: ptr
  status :: int32
  priority :: int32

section \<open>Resources (resource.c)\<close>

text \<open>
  Both transfer functions get a valid \<^verbatim>\<open>Resource *\<close> and an in-out \<^verbatim>\<open>int *amount\<close>; the model
  takes the resource and the requested amount and returns the updated resource and the
  residual left in \<^verbatim>\<open>*amount\<close>. The semaphore makes the body atomic.
\<close>

definition resource_transfer_into :: "Resource \<Rightarrow> int32 \<Rightarrow> Resource \<times> int32" where
  "resource_transfer_into r a =
     (let remaining_capacity = max_capacity r - amount r;
          amount_to_transfer = (if a \<le>s remaining_capacity then a else remaining_capacity)
      in (r\<lparr>amount := amount r + amount_to_transfer\<rparr>, a - amount_to_transfer))"

definition resource_transfer_from :: "Resource \<Rightarrow> int32 \<Rightarrow> Resource \<times> int32" where
  "resource_transfer_from r a =
     (let amount_to_transfer = (if amount r <s a then amount r else a)
      in (r\<lparr>amount := amount r - amount_to_transfer\<rparr>, a - amount_to_transfer))"

definition recipe_init :: "ptr \<Rightarrow> ptr \<Rightarrow> int32 \<Rightarrow> int32 \<Rightarrow> int32 \<Rightarrow> Recipe" where
  "recipe_init inp outp in_amount out_amount time =
     \<lparr>input = inp, output = outp, input_amount = in_amount, output_amount = out_amount,
      processing_time = time\<rparr>"

text \<open>The invariant of the data model: \<open>0 \<le> amount \<le> max_capacity\<close>, as signed ints.\<close>

definition resource_inv :: "Resource \<Rightarrow> bool" where
  "resource_inv r = (0 \<le>s amount r \<and> amount r \<le>s max_capacity r)"

section \<open>Events (event.c)\<close>


text \<open>\<^verbatim>\<open>event_init\<close> fills the event it is given; the model returns the filled event.\<close>

definition event_init :: "ptr \<Rightarrow> ptr \<Rightarrow> int32 \<Rightarrow> Event" where
  "event_init sys res st =
     \<lparr>system = sys, resource = res, status = st, priority = st AND 0xFF00\<rparr>"


text \<open>
  The queue is a singly linked list from \<^verbatim>\<open>head\<close>: a list of events, head first.
  \<open>event_queue_insert\<close> is the traversal of \<open>event_queue_push\<close> with the splice after it:
  it walks past every node whose priority is at least the new event's.
\<close>

type_synonym EventQueue = "Event list"

definition event_queue_init :: EventQueue where
  "event_queue_init = []"

fun event_queue_insert :: "EventQueue \<Rightarrow> Event \<Rightarrow> EventQueue" where
  "event_queue_insert [] event = [event]"
| "event_queue_insert (current # rest) event =
     (if sint (priority event) \<le> sint (priority current)
      then current # event_queue_insert rest event
      else event # current # rest)"

definition event_queue_push :: "EventQueue \<Rightarrow> Event \<Rightarrow> EventQueue" where
  "event_queue_push queue event =
     (if queue = [] then [event] else event_queue_insert queue event)"

text \<open>
  \<open>event_queue_pop\<close> returns the C result (1 or 0), the event copied out (none when the
  queue is empty: \<^verbatim>\<open>*event\<close> is then left alone) and the queue after the call.
\<close>

definition event_queue_pop :: "EventQueue \<Rightarrow> int32 \<times> Event option \<times> EventQueue" where
  "event_queue_pop queue =
     (case queue of
        [] \<Rightarrow> (0, None, queue)
      | head_node # next \<Rightarrow> (1, Some head_node, next))"

text \<open>A client of the queue: pushes interleaved with pops; the pops' results in order.\<close>

datatype queue_op = Push Event | Pop

fun run_queue :: "queue_op list \<Rightarrow> EventQueue \<Rightarrow> (int32 \<times> Event option) list" where
  "run_queue [] queue = []"
| "run_queue (Push event # ops) queue = run_queue ops (event_queue_push queue event)"
| "run_queue (Pop # ops) queue =
     (case event_queue_pop queue of (r, ev, queue') \<Rightarrow> (r, ev) # run_queue ops queue')"

subsection \<open>The ordering contract of the queue, in the spec's words\<close>

text \<open>
  The contract keeps the enqueued events in the order they were pushed. Its pop returns,
  among the events no enqueued event exceeds in priority, the one pushed earliest, and
  removes that one; on no events it returns 0 and changes nothing.
\<close>

definition highest_in :: "Event list \<Rightarrow> Event \<Rightarrow> bool" where
  "highest_in pending e = list_all (\<lambda>x. sint (priority x) \<le> sint (priority e)) pending"

fun take_first :: "('a \<Rightarrow> bool) \<Rightarrow> 'a list \<Rightarrow> ('a \<times> 'a list) option" where
  "take_first P [] = None"
| "take_first P (x # xs) =
     (if P x then Some (x, xs)
      else (case take_first P xs of None \<Rightarrow> None | Some (y, ys) \<Rightarrow> Some (y, x # ys)))"

definition contract_push :: "Event list \<Rightarrow> Event \<Rightarrow> Event list" where
  "contract_push pending e = pending @ [e]"

definition contract_pop :: "Event list \<Rightarrow> int32 \<times> Event option \<times> Event list" where
  "contract_pop pending =
     (case take_first (highest_in pending) pending of
        None \<Rightarrow> (0, None, pending)
      | Some (e, rest) \<Rightarrow> (1, Some e, rest))"

fun run_contract :: "queue_op list \<Rightarrow> Event list \<Rightarrow> (int32 \<times> Event option) list" where
  "run_contract [] pending = []"
| "run_contract (Push event # ops) pending = run_contract ops (contract_push pending event)"
| "run_contract (Pop # ops) pending =
     (case contract_pop pending of (r, ev, pending') \<Rightarrow> (r, ev) # run_contract ops pending')"

section \<open>The simulation state\<close>

text \<open>
  \<open>World\<close> is the \<^verbatim>\<open>Manager\<close> struct (\<open>simulation_running\<close>, \<open>system_array\<close>, \<open>resources\<close>,
  \<open>event_queue\<close>) together with the heap objects its pointers reach and the calls made to
  the outside (\<^verbatim>\<open>printf\<close>, \<^verbatim>\<open>usleep\<close> and the display), in order. Every system shares the
  manager's queue, so \<^verbatim>\<open>global_queue\<close> is \<open>event_queue\<close>. Reading through \<^verbatim>\<open>NULL\<close> or through an
  address that holds no object is a fault. Threads are outside the model: a call runs from
  its start to its end with no other call in between, so a loop that waits for another
  thread is bounded by fuel. Running out of fuel is a fault of its own, and it keeps the
  state that the loop had reached.
\<close>

datatype call =
  Printf string
  | Usleep int32
  | Display_simulation_state
  | Display_event Event
  | Display_finish_sim

record World =
  simulation_running :: int32
  system_array :: "ptr list"
  resources :: "ptr list"
  event_queue :: EventQueue
  system_heap :: "ptr \<rightharpoonup> System"
  resource_heap :: "ptr \<rightharpoonup> Resource"
  trace :: "call list"

datatype fault = Segfault | Out_of_fuel World

definition deref :: "(ptr \<rightharpoonup> 'a) \<Rightarrow> ptr \<Rightarrow> fault + 'a" where
  "deref heap p =
     (if p = NULL then Inl Segfault
      else (case heap p of None \<Rightarrow> Inl Segfault | Some obj \<Rightarrow> Inr obj))"

definition usleep :: "int32 \<Rightarrow> World \<Rightarrow> World" where
  "usleep usec w = w\<lparr>trace := trace w @ [Usleep usec]\<rparr>"

definition printf :: "string \<Rightarrow> World \<Rightarrow> World" where
  "printf line w = w\<lparr>trace := trace w @ [Printf line]\<rparr>"

definition push_event :: "Event \<Rightarrow> World \<Rightarrow> World" where
  "push_event event w = w\<lparr>event_queue := event_queue_push (event_queue w) event\<rparr>"

section \<open>Systems (system.c)\<close>

definition system_get_mode :: "System \<Rightarrow> int32" where
  "system_get_mode sys = mode sys"

definition system_set_mode :: "System \<Rightarrow> int32 \<Rightarrow> System" where
  "system_set_mode sys m = sys\<lparr>mode := m\<rparr>"

text \<open>
  \<open>adjusted_processing_time\<close> is the \<^verbatim>\<open>switch\<close> of \<open>system_simulate_process_time\<close>: the value
  of its local variable, in milliseconds.
\<close>

definition adjusted_processing_time :: "System \<Rightarrow> int32" where
  "adjusted_processing_time sys =
     (if mode sys = MODE_SLOW then processing_time (recipe sys) * 4
      else if mode sys = MODE_FAST then c_div (processing_time (recipe sys)) 4
      else processing_time (recipe sys))"

definition system_simulate_process_time :: "System \<Rightarrow> World \<Rightarrow> World" where
  "system_simulate_process_time sys w =
     usleep (c_div (adjusted_processing_time sys * 1000) PARAM_SPEED_MODIFIER) w"

text \<open>
  The input loop of \<open>system_run\<close> (lines 99 to 111). \<open>system_run_pull_body\<close> is one pass of
  its body: the new \<open>amount_to_pull\<close>, the new state, and whether the pass returned from
  \<open>system_run\<close> (the \<^verbatim>\<open>SINGLE_THREAD_MODE\<close> exit). The body passes \<open>recipe.input\<close> to
  \<open>resource_transfer_from\<close> unchecked.
\<close>

definition system_run_pull_body ::
  "ptr \<Rightarrow> System \<Rightarrow> int32 \<Rightarrow> World \<Rightarrow> fault + (bool \<times> int32 \<times> World)" where
  "system_run_pull_body p sys amount_to_pull w =
     (case deref (resource_heap w) (input (recipe sys)) of
        Inl f \<Rightarrow> Inl f
      | Inr r \<Rightarrow>
          (case resource_transfer_from r amount_to_pull of
             (r', amount_to_pull') \<Rightarrow>
               (let w1 = w\<lparr>resource_heap := (resource_heap w)(input (recipe sys) \<mapsto> r')\<rparr> in
                if 0 <s amount_to_pull' then
                  (let event = event_init p (input (recipe sys)) EVENT_INSUFFICIENT;
                       w2 = push_event event w1;
                       w3 = usleep (c_div (PARAM_SYSTEM_WAIT * 1000) PARAM_SPEED_MODIFIER) w2
                   in Inr (SINGLE_THREAD_MODE \<noteq> 0, amount_to_pull', w3))
                else Inr (False, amount_to_pull', w1))))"

fun system_run_pull ::
  "nat \<Rightarrow> ptr \<Rightarrow> System \<Rightarrow> int32 \<Rightarrow> World \<Rightarrow> fault + (bool \<times> int32 \<times> World)" where
  "system_run_pull 0 p sys amount_to_pull w =
     (if 0 <s amount_to_pull \<and> system_get_mode sys \<noteq> MODE_TERMINATE
      then Inl (Out_of_fuel w)
      else Inr (False, amount_to_pull, w))"
| "system_run_pull (Suc fuel) p sys amount_to_pull w =
     (if 0 <s amount_to_pull \<and> system_get_mode sys \<noteq> MODE_TERMINATE
      then (case system_run_pull_body p sys amount_to_pull w of
              Inl f \<Rightarrow> Inl f
            | Inr (returned, amount_to_pull', w') \<Rightarrow>
                if returned then Inr (True, amount_to_pull', w')
                else system_run_pull fuel p sys amount_to_pull' w')
      else Inr (False, amount_to_pull, w))"

text \<open>The processing step (lines 114 to 121): the delay, then the Produced event.\<close>

definition system_run_process :: "ptr \<Rightarrow> System \<Rightarrow> World \<Rightarrow> World" where
  "system_run_process p sys w =
     (let w1 = system_simulate_process_time sys w;
          event = event_init p (input (recipe sys)) EVENT_PRODUCED
      in push_event event w1)"

text \<open>The output loop (lines 124 to 136), guarded by \<open>recipe.output\<close> not being \<^verbatim>\<open>NULL\<close>.\<close>

definition system_run_push_body ::
  "ptr \<Rightarrow> System \<Rightarrow> int32 \<Rightarrow> World \<Rightarrow> fault + (bool \<times> int32 \<times> World)" where
  "system_run_push_body p sys local_output_amount w =
     (case deref (resource_heap w) (output (recipe sys)) of
        Inl f \<Rightarrow> Inl f
      | Inr r \<Rightarrow>
          (case resource_transfer_into r local_output_amount of
             (r', local_output_amount') \<Rightarrow>
               (let w1 = w\<lparr>resource_heap := (resource_heap w)(output (recipe sys) \<mapsto> r')\<rparr> in
                if 0 <s local_output_amount' then
                  (let event = event_init p (output (recipe sys)) EVENT_CAPACITY;
                       w2 = push_event event w1;
                       w3 = usleep (c_div (PARAM_SYSTEM_WAIT * 1000) PARAM_SPEED_MODIFIER) w2
                   in Inr (SINGLE_THREAD_MODE \<noteq> 0, local_output_amount', w3))
                else Inr (False, local_output_amount', w1))))"

fun system_run_push ::
  "nat \<Rightarrow> ptr \<Rightarrow> System \<Rightarrow> int32 \<Rightarrow> World \<Rightarrow> fault + (bool \<times> int32 \<times> World)" where
  "system_run_push 0 p sys local_output_amount w =
     (if output (recipe sys) \<noteq> NULL \<and> 0 <s local_output_amount
         \<and> system_get_mode sys \<noteq> MODE_TERMINATE
      then Inl (Out_of_fuel w)
      else Inr (False, local_output_amount, w))"
| "system_run_push (Suc fuel) p sys local_output_amount w =
     (if output (recipe sys) \<noteq> NULL \<and> 0 <s local_output_amount
         \<and> system_get_mode sys \<noteq> MODE_TERMINATE
      then (case system_run_push_body p sys local_output_amount w of
              Inl f \<Rightarrow> Inl f
            | Inr (returned, local_output_amount', w') \<Rightarrow>
                if returned then Inr (True, local_output_amount', w')
                else system_run_push fuel p sys local_output_amount' w')
      else Inr (False, local_output_amount, w))"

definition report_recipe_thresholds :: "ptr \<Rightarrow> System \<Rightarrow> World \<Rightarrow> fault + World" where
  "report_recipe_thresholds p sys w =
     (if input (recipe sys) = NULL then Inr w
      else
        (let low_threshold = input_amount (recipe sys) * PARAM_RESOURCE_LOW;
             high_threshold = input_amount (recipe sys) * PARAM_RESOURCE_HIGH
         in (case deref (resource_heap w) (input (recipe sys)) of
               Inl f \<Rightarrow> Inl f
             | Inr r \<Rightarrow>
                 (let current_amount = amount r in
                  if current_amount \<le>s low_threshold
                  then Inr (push_event (event_init p (input (recipe sys)) EVENT_LOW) w)
                  else if high_threshold <s current_amount
                  then Inr (push_event (event_init p (input (recipe sys)) EVENT_HIGH) w)
                  else Inr w))))"

text \<open>
  \<open>system_run\<close> on the system at address \<open>p\<close>. The system's own fields do not change during
  the call, so the system is read once.
\<close>

definition system_run :: "nat \<Rightarrow> ptr \<Rightarrow> World \<Rightarrow> fault + World" where
  "system_run fuel p w =
     (case deref (system_heap w) p of
        Inl f \<Rightarrow> Inl f
      | Inr sys \<Rightarrow>
          (case system_run_pull fuel p sys (input_amount (recipe sys)) w of
             Inl f \<Rightarrow> Inl f
           | Inr (returned, amount_to_pull, w1) \<Rightarrow>
               if returned then Inr w1
               else
                 (case (if amount_to_pull = 0
                        then (output_amount (recipe sys), system_run_process p sys w1)
                        else (0, w1)) of
                    (local_output_amount, w2) \<Rightarrow>
                      (case system_run_push fuel p sys local_output_amount w2 of
                         Inl f \<Rightarrow> Inl f
                       | Inr (returned', local_output_amount', w3) \<Rightarrow>
                           if returned' then Inr w3
                           else report_recipe_thresholds p sys w3))))"

text \<open>\<open>system_thread\<close>: the run loop of one system, with its \<^verbatim>\<open>NULL\<close> check.\<close>

fun system_thread_loop :: "nat \<Rightarrow> ptr \<Rightarrow> World \<Rightarrow> fault + World" where
  "system_thread_loop 0 p w =
     (case deref (system_heap w) p of
        Inl f \<Rightarrow> Inl f
      | Inr sys \<Rightarrow>
          if system_get_mode sys \<noteq> MODE_TERMINATE then Inl (Out_of_fuel w) else Inr w)"
| "system_thread_loop (Suc fuel) p w =
     (case deref (system_heap w) p of
        Inl f \<Rightarrow> Inl f
      | Inr sys \<Rightarrow>
          if system_get_mode sys \<noteq> MODE_TERMINATE
          then (case system_run (Suc fuel) p w of
                  Inl f \<Rightarrow> Inl f
                | Inr w1 \<Rightarrow>
                    system_thread_loop fuel p
                      (usleep (c_div (PARAM_SYSTEM_WAIT * 1000) PARAM_SPEED_MODIFIER) w1))
          else Inr w)"

definition system_thread :: "nat \<Rightarrow> ptr \<Rightarrow> World \<Rightarrow> fault + World" where
  "system_thread fuel arg w =
     (if arg = NULL
      then Inr (printf (''Error: NULL system passed to system_thread'' @ [CHR 0x0A]) w)
      else system_thread_loop fuel arg w)"

section \<open>The display (display.c)\<close>

text \<open>
  The display only reads the state and prints; the model records the call. \<open>display_event\<close>
  prints \<^verbatim>\<open>event->system->name\<close> and \<^verbatim>\<open>event->resource->name\<close>, so it reads through both
  pointers.
\<close>

definition display_simulation_state :: "World \<Rightarrow> World" where
  "display_simulation_state w = w\<lparr>trace := trace w @ [Display_simulation_state]\<rparr>"

definition display_finish_sim :: "World \<Rightarrow> World" where
  "display_finish_sim w = w\<lparr>trace := trace w @ [Display_finish_sim]\<rparr>"

definition display_event :: "Event \<Rightarrow> World \<Rightarrow> fault + World" where
  "display_event event w =
     (case deref (system_heap w) (system event) of
        Inl f \<Rightarrow> Inl f
      | Inr sys \<Rightarrow>
          (case deref (resource_heap w) (resource event) of
             Inl f \<Rightarrow> Inl f
           | Inr res \<Rightarrow> Inr (w\<lparr>trace := trace w @ [Display_event event]\<rparr>)))"

section \<open>The manager (manager.c)\<close>

text \<open>
  The \<^verbatim>\<open>for\<close> loop of \<open>manager_run\<close> (lines 282 to 289) over the array of system pointers,
  for the decided \<open>mode\<close> and the event's resource.
\<close>

fun manager_run_update ::
  "int32 \<Rightarrow> ptr \<Rightarrow> ptr list \<Rightarrow> (ptr \<rightharpoonup> System) \<Rightarrow> fault + (ptr \<rightharpoonup> System)" where
  "manager_run_update m res [] heap = Inr heap"
| "manager_run_update m res (sp # rest) heap =
     (case deref heap sp of
        Inl f \<Rightarrow> Inl f
      | Inr sys \<Rightarrow>
          if system_get_mode sys = MODE_TERMINATE then manager_run_update m res rest heap
          else if m = MODE_TERMINATE \<or> output (recipe sys) = res
          then manager_run_update m res rest (heap(sp \<mapsto> system_set_mode sys m))
          else manager_run_update m res rest heap)"

text \<open>
  The flags and the \<^verbatim>\<open>if\<close> chain (lines 254 to 279): the decided mode, and whether the
  simulation ends (and why).
\<close>

definition manager_run_decide :: "Event \<Rightarrow> Resource \<Rightarrow> World \<Rightarrow> int32 \<times> World" where
  "manager_run_decide event res w =
     (let no_oxygen_flag = (status event = EVENT_INSUFFICIENT \<and> name res = ''Oxygen'');
          distance_reached_flag = (status event = EVENT_CAPACITY \<and> name res = ''Distance'');
          need_more_flag = (status event = EVENT_LOW \<or> status event = EVENT_INSUFFICIENT);
          need_less_flag = (status event = EVENT_CAPACITY \<or> status event = EVENT_HIGH)
      in if no_oxygen_flag then
           (MODE_TERMINATE,
            (printf (''Oxygen depleted. Terminating all systems.'' @ [CHR 0x0A])
               (display_finish_sim w))\<lparr>simulation_running := 0\<rparr>)
         else if distance_reached_flag then
           (MODE_TERMINATE,
            (printf (''Destination reached. Terminating all systems.'' @ [CHR 0x0A])
               (display_finish_sim w))\<lparr>simulation_running := 0\<rparr>)
         else if need_more_flag then (MODE_FAST, w)
         else if need_less_flag then (MODE_SLOW, w)
         else (MODE_STANDARD, w))"

text \<open>
  One pass of the \<^verbatim>\<open>while\<close> body (lines 248 to 291) for the popped event. The \<^verbatim>\<open>continue\<close>
  for an ignored priority comes after the debug \<^verbatim>\<open>printf\<close> and before \<open>display_event\<close>.
\<close>

definition manager_run_body :: "Event \<Rightarrow> World \<Rightarrow> fault + World" where
  "manager_run_body event w =
     (case deref (system_heap w) (system event) of
        Inl f \<Rightarrow> Inl f
      | Inr origin \<Rightarrow>
          (let w1 = printf (''Manager: Event popped '' @ sname origin @ [CHR 0x0A]) w in
           if priority event = PRIORITY_IGN then Inr w1
           else
             (case display_event event w1 of
                Inl f \<Rightarrow> Inl f
              | Inr w2 \<Rightarrow>
                  (case deref (resource_heap w2) (resource event) of
                     Inl f \<Rightarrow> Inl f
                   | Inr res \<Rightarrow>
                       (case manager_run_decide event res w2 of
                          (m, w3) \<Rightarrow>
                            (case manager_run_update m (resource event) (system_array w3)
                                    (system_heap w3) of
                               Inl f \<Rightarrow> Inl f
                             | Inr heap \<Rightarrow>
                                 Inr (usleep (c_div (PARAM_MANAGER_WAIT * 1000) PARAM_SPEED_MODIFIER)
                                        (w3\<lparr>system_heap := heap\<rparr>))))))))"

text \<open>The \<^verbatim>\<open>while\<close> loop of \<open>manager_run\<close>: it ends when the flag is cleared or the queue is empty.\<close>

function manager_run_loop :: "World \<Rightarrow> fault + World" where
  "manager_run_loop w =
     (if simulation_running w = 0 then Inr w
      else
        (case event_queue_pop (event_queue w) of
           (r, ev, queue') \<Rightarrow>
             (case (r \<noteq> 0, ev) of
                (True, Some event) \<Rightarrow>
                  (case manager_run_body event (w\<lparr>event_queue := queue'\<rparr>) of
                     Inl f \<Rightarrow> Inl f
                   | Inr w' \<Rightarrow> manager_run_loop w')
              | _ \<Rightarrow> Inr (w\<lparr>event_queue := queue'\<rparr>))))"
  by pat_completeness auto
termination
  apply (relation "measure (\<lambda>w. length (event_queue w))")
   apply simp
  apply (auto simp: event_queue_pop_def manager_run_body_def manager_run_decide_def
      display_event_def printf_def usleep_def display_finish_sim_def Let_def
      split: list.splits sum.splits if_splits)
  done

definition manager_run :: "World \<Rightarrow> fault + World" where
  "manager_run w = manager_run_loop (display_simulation_state w)"

text \<open>\<open>manager_thread\<close>: \<open>manager_run\<close> again and again until the flag is cleared.\<close>

fun manager_thread_loop :: "nat \<Rightarrow> World \<Rightarrow> fault + World" where
  "manager_thread_loop 0 w =
     (if simulation_running w \<noteq> 0 then Inl (Out_of_fuel w) else Inr w)"
| "manager_thread_loop (Suc fuel) w =
     (if simulation_running w \<noteq> 0
      then (case manager_run w of
              Inl f \<Rightarrow> Inl f
            | Inr w1 \<Rightarrow>
                manager_thread_loop fuel
                  (usleep (c_div (PARAM_MANAGER_WAIT * 1000) PARAM_SPEED_MODIFIER) w1))
      else Inr w)"

definition manager_thread :: "nat \<Rightarrow> World \<Rightarrow> fault + World" where
  "manager_thread fuel w =
     (case manager_thread_loop fuel (printf (''Manager thread started'' @ [CHR 0x0A]) w) of
        Inl f \<Rightarrow> Inl f
      | Inr w' \<Rightarrow> Inr (printf (''Manager thread ended'' @ [CHR 0x0A]) w'))"

section \<open>The scenario of main.c\<close>

text \<open>
  \<open>load_data\<close> after \<open>manager_init\<close>: four resources and four systems. The addresses are
  1 to 4 for Fuel, Oxygen, Energy and Distance, and 11 to 14 for the systems.
\<close>

definition load_data :: World where
  "load_data =
     \<lparr>simulation_running = 1,
      system_array = [11, 12, 13, 14],
      resources = [1, 2, 3, 4],
      event_queue = event_queue_init,
      system_heap =
        [11 \<mapsto> \<lparr>sname = ''Propulsion'', recipe = recipe_init 1 4 5 25 500, mode = MODE_STANDARD\<rparr>,
         12 \<mapsto> \<lparr>sname = ''Life Support'', recipe = recipe_init 3 2 10 5 100, mode = MODE_STANDARD\<rparr>,
         13 \<mapsto> \<lparr>sname = ''Crew'', recipe = recipe_init 2 NULL 5 0 200, mode = MODE_STANDARD\<rparr>,
         14 \<mapsto> \<lparr>sname = ''Generator'', recipe = recipe_init 1 3 10 9 200, mode = MODE_STANDARD\<rparr>],
      resource_heap =
        [1 \<mapsto> \<lparr>name = ''Fuel'', amount = 1000, max_capacity = 1000\<rparr>,
         2 \<mapsto> \<lparr>name = ''Oxygen'', amount = 20, max_capacity = 50\<rparr>,
         3 \<mapsto> \<lparr>name = ''Energy'', amount = 30, max_capacity = 50\<rparr>,
         4 \<mapsto> \<lparr>name = ''Distance'', amount = 0, max_capacity = 1000\<rparr>],
      trace = []\<rparr>"

text \<open>
  The same scenario with Propulsion already in Terminate, and one event queued that names
  Propulsion's output (High on Distance, reported by Life Support).
\<close>

definition terminated_propulsion :: World where
  "terminated_propulsion =
     load_data\<lparr>system_heap := (system_heap load_data)
                  (11 \<mapsto> \<lparr>sname = ''Propulsion'', recipe = recipe_init 1 4 5 25 500,
                           mode = MODE_TERMINATE\<rparr>),
               event_queue := [event_init 12 4 EVENT_HIGH]\<rparr>"


definition solar_panel :: World where
  "solar_panel =
     load_data\<lparr>system_heap := (system_heap load_data)
                  (15 \<mapsto> \<lparr>sname = ''Solar Panel'', recipe = recipe_init NULL 3 5 9 200,
                           mode = MODE_STANDARD\<rparr>)\<rparr>"

definition recycler :: World where
  "recycler =
     load_data\<lparr>system_heap := (system_heap load_data)
                  (15 \<mapsto> \<lparr>sname = ''Recycler'', recipe = recipe_init 3 3 5 5 100,
                           mode = MODE_STANDARD\<rparr>)\<rparr>"

text \<open>
  Two more: the scenario with Distance at 990 of 1000, where Propulsion's 25 do not fit;
  and a fifth system with no input (\<^verbatim>\<open>NULL\<close>, \<open>input_amount\<close> 0) in the Terminate mode.
\<close>

definition near_destination :: World where
  "near_destination =
     load_data\<lparr>resource_heap := (resource_heap load_data)
                  (4 \<mapsto> \<lparr>name = ''Distance'', amount = 990, max_capacity = 1000\<rparr>)\<rparr>"


section \<open>The coordinator's decision, in the spec's words\<close>

text \<open>
  The simulation ends on Insufficient for the resource named Oxygen or Capacity for the
  resource named Distance. Otherwise the target mode is Fast for Low or Insufficient, Slow
  for Capacity or High, and Standard for anything else. On termination every system of the
  array that is not in Terminate gets Terminate; otherwise the systems of the array whose
  recipe output is the event's resource, and that are not in Terminate, get the target mode.
\<close>

definition claimed_terminate :: "Event \<Rightarrow> Resource \<Rightarrow> bool" where
  "claimed_terminate event res =
     ((status event = EVENT_INSUFFICIENT \<and> name res = ''Oxygen'')
      \<or> (status event = EVENT_CAPACITY \<and> name res = ''Distance''))"

definition claimed_target :: "Event \<Rightarrow> Resource \<Rightarrow> int32" where
  "claimed_target event res =
     (if claimed_terminate event res then MODE_TERMINATE
      else if status event = EVENT_LOW \<or> status event = EVENT_INSUFFICIENT then MODE_FAST
      else if status event = EVENT_CAPACITY \<or> status event = EVENT_HIGH then MODE_SLOW
      else MODE_STANDARD)"

definition claimed_reaction :: "Event \<Rightarrow> Resource \<Rightarrow> ptr list \<Rightarrow> ptr \<Rightarrow> System \<Rightarrow> System" where
  "claimed_reaction event res array p sys =
     (if p \<in> set array \<and> mode sys \<noteq> MODE_TERMINATE
         \<and> (claimed_terminate event res \<or> output (recipe sys) = resource event)
      then sys\<lparr>mode := claimed_target event res\<rparr>
      else sys)"

section \<open>Notions used in the proofs\<close>

text \<open>
  The queue and the contract's pending list are related when the queue is in descending
  priority and, priority by priority, holds the same events in the same order.
\<close>

definition prio :: "Event \<Rightarrow> int" where
  "prio e = sint (priority e)"

definition ordered :: "EventQueue \<Rightarrow> bool" where
  "ordered q = sorted_wrt (\<lambda>a b. prio b \<le> prio a) q"

definition tier :: "int \<Rightarrow> Event list \<Rightarrow> Event list" where
  "tier k q = filter (\<lambda>x. prio x = k) q"

definition queue_rel :: "EventQueue \<Rightarrow> Event list \<Rightarrow> bool" where
  "queue_rel q pending = (ordered q \<and> (\<forall>k. tier k q = tier k pending))"

text \<open>Every pointer of an array is a valid address of the heap.\<close>

definition all_valid :: "(ptr \<rightharpoonup> 'a) \<Rightarrow> ptr list \<Rightarrow> bool" where
  "all_valid heap ps = list_all (\<lambda>p. p \<noteq> NULL \<and> heap p \<noteq> None) ps"

text \<open>
  The state a call ends in: the state it returns, or the state it had reached when the
  fuel ran out. (After a segmentation fault there is no state.)
\<close>

definition reached :: "fault + World \<Rightarrow> World \<Rightarrow> bool" where
  "reached result w' = (result = Inr w' \<or> result = Inl (Out_of_fuel w'))"

text \<open>
  The transfers of a cycle, on the resource heap alone. \<open>chain_from k a req\<close> is at most \<open>k\<close>
  calls of \<open>resource_transfer_from\<close> on the resource at address \<open>a\<close>, the first for \<open>req\<close> and
  each next one for the residual of the one before, as long as the residual is positive;
  \<open>chain_into\<close> is the same with \<open>resource_transfer_into\<close>. \<open>cycle_heaps\<close> relates a heap to
  what one cycle of a system can make of it: a chain from the recipe's input for
  \<open>input_amount\<close>, then a chain into the recipe's output for \<open>output_amount\<close>.
\<close>

fun chain_from ::
  "nat \<Rightarrow> ptr \<Rightarrow> int32 \<Rightarrow> (ptr \<rightharpoonup> Resource) \<Rightarrow> (ptr \<rightharpoonup> Resource) \<times> int32" where
  "chain_from 0 a req heap = (heap, req)"
| "chain_from (Suc k) a req heap =
     (if 0 <s req then
        (case heap a of
           None \<Rightarrow> (heap, req)
         | Some r \<Rightarrow>
             (case resource_transfer_from r req of
                (r', req') \<Rightarrow> chain_from k a req' (heap(a \<mapsto> r'))))
      else (heap, req))"

fun chain_into ::
  "nat \<Rightarrow> ptr \<Rightarrow> int32 \<Rightarrow> (ptr \<rightharpoonup> Resource) \<Rightarrow> (ptr \<rightharpoonup> Resource) \<times> int32" where
  "chain_into 0 a req heap = (heap, req)"
| "chain_into (Suc k) a req heap =
     (if 0 <s req then
        (case heap a of
           None \<Rightarrow> (heap, req)
         | Some r \<Rightarrow>
             (case resource_transfer_into r req of
                (r', req') \<Rightarrow> chain_into k a req' (heap(a \<mapsto> r'))))
      else (heap, req))"

definition cycle_heaps ::
  "System \<Rightarrow> (ptr \<rightharpoonup> Resource) \<Rightarrow> (ptr \<rightharpoonup> Resource) \<Rightarrow> bool" where
  "cycle_heaps sys heap heap' =
     (\<exists>k j. heap' =
        fst (chain_into j (output (recipe sys)) (output_amount (recipe sys))
              (fst (chain_from k (input (recipe sys)) (input_amount (recipe sys)) heap))))"

text \<open>
  What one call of \<open>system_run\<close> may do to the rest of the state. \<open>emit\<close> pushes events in
  order; \<open>cycle_events\<close> are the five events a system can report; \<open>heap_inv\<close> is the
  resource invariant on every resource of the heap. \<open>cycle_step\<close> relates the state before
  and after: the systems, the arrays and the flag are the same, the queue has got some of
  the five events pushed, the trace has got longer, and the invariant of the heap is kept.
\<close>

definition emit :: "EventQueue \<Rightarrow> Event list \<Rightarrow> EventQueue" where
  "emit queue es = foldl event_queue_push queue es"

definition cycle_events :: "ptr \<Rightarrow> System \<Rightarrow> Event list" where
  "cycle_events p sys =
     [event_init p (input (recipe sys)) EVENT_INSUFFICIENT,
      event_init p (input (recipe sys)) EVENT_PRODUCED,
      event_init p (output (recipe sys)) EVENT_CAPACITY,
      event_init p (input (recipe sys)) EVENT_LOW,
      event_init p (input (recipe sys)) EVENT_HIGH]"

definition heap_inv :: "(ptr \<rightharpoonup> Resource) \<Rightarrow> bool" where
  "heap_inv heap = (\<forall>a r. heap a = Some r \<longrightarrow> resource_inv r)"

definition cycle_step :: "ptr \<Rightarrow> System \<Rightarrow> World \<Rightarrow> World \<Rightarrow> bool" where
  "cycle_step p sys w w' =
     (system_heap w' = system_heap w
      \<and> system_array w' = system_array w
      \<and> resources w' = resources w
      \<and> simulation_running w' = simulation_running w
      \<and> (\<exists>es. set es \<subseteq> set (cycle_events p sys)
                \<and> event_queue w' = emit (event_queue w) es)
      \<and> (\<exists>ts. trace w' = trace w @ ts)
      \<and> (heap_inv (resource_heap w) \<longrightarrow> heap_inv (resource_heap w')))"


text \<open>
  What a run leaves behind: whether it returned, the calls, the queue and the resources of
  the array; nothing after a segmentation fault.
\<close>

definition summary ::
  "fault + World \<Rightarrow> (bool \<times> call list \<times> EventQueue \<times> Resource option list) option" where
  "summary result =
     (case result of
        Inr w \<Rightarrow> Some (True, trace w, event_queue w, map (resource_heap w) (resources w))
      | Inl Segfault \<Rightarrow> None
      | Inl (Out_of_fuel w) \<Rightarrow>
          Some (False, trace w, event_queue w, map (resource_heap w) (resources w)))"

declare manager_run_loop.simps [simp del]

section \<open>Properties\<close>

lemmas constants_defs = NULL_def MODE_TERMINATE_def MODE_DISABLED_def MODE_SLOW_def
  MODE_STANDARD_def MODE_FAST_def PRIORITY_HIGH_def PRIORITY_MED_def PRIORITY_LOW_def
  PRIORITY_IGN_def EVENT_OK_def EVENT_LOW_def EVENT_INSUFFICIENT_def EVENT_CAPACITY_def
  EVENT_HIGH_def EVENT_PRODUCED_def PARAM_MANAGER_WAIT_def PARAM_SYSTEM_WAIT_def
  PARAM_RESOURCE_LOW_def PARAM_RESOURCE_HIGH_def PARAM_SPEED_MODIFIER_def
  SINGLE_THREAD_MODE_def

lemmas system_run_defs = system_run_def system_run_pull_body_def system_run_push_body_def
  system_run_process_def system_simulate_process_time_def adjusted_processing_time_def
  report_recipe_thresholds_def resource_transfer_from_def resource_transfer_into_def
  system_get_mode_def deref_def usleep_def push_event_def event_queue_push_def
  event_init_def recipe_init_def c_div_def Let_def word_sless_alt word_sle_eq

subsection \<open>The scenario\<close>

lemma load_data_fields:
  "system_array load_data = [11, 12, 13, 14]"
  "simulation_running load_data = 1"
  "event_queue load_data = []"
  "trace load_data = []"
  by (simp_all add: load_data_def event_queue_init_def)

lemma load_data_systems:
  "system_heap load_data 11 = Some \<lparr>sname = ''Propulsion'', recipe = recipe_init 1 4 5 25 500, mode = MODE_STANDARD\<rparr>"
  "system_heap load_data 12 = Some \<lparr>sname = ''Life Support'', recipe = recipe_init 3 2 10 5 100, mode = MODE_STANDARD\<rparr>"
  "system_heap load_data 13 = Some \<lparr>sname = ''Crew'', recipe = recipe_init 2 NULL 5 0 200, mode = MODE_STANDARD\<rparr>"
  "system_heap load_data 14 = Some \<lparr>sname = ''Generator'', recipe = recipe_init 1 3 10 9 200, mode = MODE_STANDARD\<rparr>"
  by (simp_all add: load_data_def)

lemma load_data_resources:
  "resource_heap load_data 1 = Some \<lparr>name = ''Fuel'', amount = 1000, max_capacity = 1000\<rparr>"
  "resource_heap load_data 2 = Some \<lparr>name = ''Oxygen'', amount = 20, max_capacity = 50\<rparr>"
  "resource_heap load_data 3 = Some \<lparr>name = ''Energy'', amount = 30, max_capacity = 50\<rparr>"
  "resource_heap load_data 4 = Some \<lparr>name = ''Distance'', amount = 0, max_capacity = 1000\<rparr>"
  by (simp_all add: load_data_def)

subsection \<open>Events\<close>

text \<open>
  C9. The priority that \<open>event_init\<close> stores is the status masked with \<open>0xFF00\<close>, a function
  of the kind alone; on the five kinds it is: Insufficient to HIGH; Low, Capacity and High
  to MEDIUM; Produced to IGNORED.
\<close>

theorem event_init_priority_of_kind:
  "priority (event_init sys res EVENT_INSUFFICIENT) = PRIORITY_HIGH
   \<and> priority (event_init sys res EVENT_LOW) = PRIORITY_MED
   \<and> priority (event_init sys res EVENT_CAPACITY) = PRIORITY_MED
   \<and> priority (event_init sys res EVENT_HIGH) = PRIORITY_MED
   \<and> priority (event_init sys res EVENT_PRODUCED) = PRIORITY_IGN"
  by (simp add: event_init_def EVENT_INSUFFICIENT_def EVENT_LOW_def EVENT_CAPACITY_def
      EVENT_HIGH_def EVENT_PRODUCED_def PRIORITY_HIGH_def PRIORITY_MED_def PRIORITY_IGN_def)


subsection \<open>The event queue\<close>

lemma event_queue_push_insert: "event_queue_push q e = event_queue_insert q e"
  by (cases q) (simp_all add: event_queue_push_def)

lemma set_event_queue_insert: "set (event_queue_insert q e) = insert e (set q)"
  by (induction q) auto

lemma ordered_insert: "ordered q \<Longrightarrow> ordered (event_queue_insert q e)"
  by (induction q) (auto simp: ordered_def prio_def set_event_queue_insert)

lemma tier_insert:
  "ordered q \<Longrightarrow> tier k (event_queue_insert q e) = tier k q @ (if prio e = k then [e] else [])"
proof (induction q)
  case Nil
  then show ?case by (simp add: tier_def)
next
  case (Cons c rest)
  show ?case
  proof (cases "sint (priority e) \<le> sint (priority c)")
    case True
    with Cons show ?thesis by (simp add: tier_def ordered_def)
  next
    case False
    have "\<forall>x\<in>set (c # rest). prio x < prio e"
      using Cons.prems False by (auto simp: ordered_def prio_def)
    then have "prio e = k \<Longrightarrow> tier k (c # rest) = []"
      unfolding tier_def by (auto simp: filter_empty_conv)
    with False show ?thesis by (auto simp: tier_def)
  qed
qed

lemma queue_rel_push:
  "queue_rel q pending \<Longrightarrow> queue_rel (event_queue_push q e) (contract_push pending e)"
  by (simp add: queue_rel_def event_queue_push_insert ordered_insert tier_insert contract_push_def)
     (simp add: tier_def)

lemma tier_set: "x \<in> set q \<longleftrightarrow> x \<in> set (tier (prio x) q)"
  by (simp add: tier_def)

lemma queue_rel_set: "queue_rel q pending \<Longrightarrow> set q = set pending"
proof -
  assume r: "queue_rel q pending"
  have "x \<in> set q \<longleftrightarrow> x \<in> set pending" for x
  proof -
    have "tier (prio x) q = tier (prio x) pending" using r by (simp add: queue_rel_def)
    then show ?thesis using tier_set [of x q] tier_set [of x pending] by simp
  qed
  then show ?thesis by blast
qed

lemma take_first_cong:
  "(\<And>x. x \<in> set xs \<Longrightarrow> P x = Q x) \<Longrightarrow> take_first P xs = take_first Q xs"
  by (induction xs) auto

lemma take_first_tier:
  "tier k xs = y # ys \<Longrightarrow>
   \<exists>rest. take_first (\<lambda>x. prio x = k) xs = Some (y, rest) \<and> tier k rest = ys
      \<and> (\<forall>j. j \<noteq> k \<longrightarrow> tier j rest = tier j xs)"
proof (induction xs)
  case Nil
  then show ?case by (simp add: tier_def)
next
  case (Cons x xs)
  show ?case
  proof (cases "prio x = k")
    case True
    with Cons.prems show ?thesis by (simp add: tier_def)
  next
    case False
    with Cons.prems have "tier k xs = y # ys" by (simp add: tier_def)
    from Cons.IH [OF this] obtain rest where
      r: "take_first (\<lambda>x. prio x = k) xs = Some (y, rest)" "tier k rest = ys"
         "\<forall>j. j \<noteq> k \<longrightarrow> tier j rest = tier j xs" by blast
    have "take_first (\<lambda>x. prio x = k) (x # xs) = Some (y, x # rest)"
      using False r(1) by simp
    moreover have "tier k (x # rest) = ys" using False r(2) by (simp add: tier_def)
    moreover have "\<forall>j. j \<noteq> k \<longrightarrow> tier j (x # rest) = tier j (x # xs)"
      using r(3) by (simp add: tier_def)
    ultimately show ?thesis by blast
  qed
qed

lemma queue_rel_pop_empty: "queue_rel [] pending \<Longrightarrow> pending = []"
  using queue_rel_set [of "[]" pending] by simp

lemma highest_in_iff:
  "queue_rel (h # t) pending \<Longrightarrow> x \<in> set pending \<Longrightarrow> highest_in pending x \<longleftrightarrow> prio x = prio h"
proof -
  assume r: "queue_rel (h # t) pending" and x: "x \<in> set pending"
  have s: "set pending = set (h # t)" using queue_rel_set [OF r] by simp
  have o: "\<forall>y\<in>set (h # t). prio y \<le> prio h"
    using r by (auto simp: queue_rel_def ordered_def)
  show ?thesis
  proof
    assume "highest_in pending x"
    then have "prio h \<le> prio x" using s by (simp add: highest_in_def list_all_iff prio_def)
    moreover have "prio x \<le> prio h" using o x s by blast
    ultimately show "prio x = prio h" by simp
  next
    assume "prio x = prio h"
    then show "highest_in pending x"
      using o s by (simp add: highest_in_def list_all_iff prio_def)
  qed
qed

lemma queue_rel_pop:
  assumes r: "queue_rel (h # t) pending"
  shows "\<exists>rest. contract_pop pending = (1, Some h, rest) \<and> queue_rel t rest"
proof -
  have tk: "tier (prio h) pending = h # tier (prio h) t"
  proof -
    have "tier (prio h) (h # t) = tier (prio h) pending" using r by (simp add: queue_rel_def)
    then show ?thesis by (simp add: tier_def)
  qed
  from take_first_tier [OF tk] obtain rest where
    tf: "take_first (\<lambda>x. prio x = prio h) pending = Some (h, rest)"
    and t1: "tier (prio h) rest = tier (prio h) t"
    and t2: "\<forall>j. j \<noteq> prio h \<longrightarrow> tier j rest = tier j pending" by blast
  have "take_first (highest_in pending) pending = take_first (\<lambda>x. prio x = prio h) pending"
    by (rule take_first_cong) (rule highest_in_iff [OF r])
  with tf have cp: "contract_pop pending = (1, Some h, rest)"
    by (simp add: contract_pop_def)
  have "tier j t = tier j rest" for j
  proof (cases "j = prio h")
    case True
    with t1 show ?thesis by simp
  next
    case False
    then have "tier j rest = tier j (h # t)" using t2 r by (simp add: queue_rel_def)
    with False show ?thesis by (simp add: tier_def)
  qed
  moreover have "ordered t" using r by (simp add: queue_rel_def ordered_def)
  ultimately show ?thesis using cp by (simp add: queue_rel_def)
qed

lemma run_queue_refines:
  "queue_rel q pending \<Longrightarrow> run_queue ops q = run_contract ops pending"
proof (induction ops arbitrary: q pending)
  case Nil
  then show ?case by simp
next
  case (Cons a ops)
  show ?case
  proof (cases a)
    case (Push e)
    have "run_queue ops (event_queue_push q e) = run_contract ops (contract_push pending e)"
      by (rule Cons.IH) (rule queue_rel_push [OF Cons.prems])
    with Push show ?thesis by simp
  next
    case Pop
    show ?thesis
    proof (cases q)
      case Nil
      with Cons.prems have "pending = []" by (simp add: queue_rel_pop_empty)
      moreover have "run_queue ops [] = run_contract ops []"
        by (rule Cons.IH) (use Cons.prems Nil \<open>pending = []\<close> in simp)
      ultimately show ?thesis using Nil Pop
        by (simp add: event_queue_pop_def contract_pop_def)
    next
      case (Cons h t)
      with Cons.prems obtain rest where
        cp: "contract_pop pending = (1, Some h, rest)" and qr: "queue_rel t rest"
        using queue_rel_pop by blast
      have "run_queue ops t = run_contract ops rest"
        by (rule Cons.IH) (rule qr)
      with Cons Pop cp show ?thesis
        by (simp add: event_queue_pop_def)
    qed
  qed
qed


text \<open>The spec's scenario: Low, Insufficient, High pushed in that order.\<close>

lemma run_queue_scenario:
  "run_queue [Push (event_init 11 1 EVENT_LOW), Push (event_init 13 2 EVENT_INSUFFICIENT),
              Push (event_init 12 3 EVENT_HIGH), Pop, Pop, Pop, Pop] event_queue_init
     = [(1, Some (event_init 13 2 EVENT_INSUFFICIENT)), (1, Some (event_init 11 1 EVENT_LOW)),
        (1, Some (event_init 12 3 EVENT_HIGH)), (0, None)]"
  by (simp add: event_queue_init_def event_queue_push_def event_queue_pop_def event_init_def
      EVENT_LOW_def EVENT_INSUFFICIENT_def EVENT_HIGH_def PRIORITY_MED_def PRIORITY_HIGH_def)

lemma queue_rel_init: "queue_rel event_queue_init []"
  by (simp add: queue_rel_def ordered_def tier_def event_queue_init_def)

text \<open>
  What the contract's pop returns: nothing on no events; otherwise an event that no pending
  event exceeds, with only events of strictly lower priority pushed before it.
\<close>

lemma take_first_split:
  "take_first P xs = Some (y, ys) \<Longrightarrow>
   \<exists>pre post. xs = pre @ y # post \<and> ys = pre @ post \<and> P y \<and> (\<forall>x\<in>set pre. \<not> P x)"
proof (induction xs arbitrary: y ys)
  case Nil
  then show ?case by simp
next
  case (Cons x xs)
  show ?case
  proof (cases "P x")
    case True
    with Cons.prems have "x # xs = [] @ y # xs \<and> ys = [] @ xs \<and> P y" by simp
    then show ?thesis by (metis empty_iff list.set(1))
  next
    case False
    with Cons.prems obtain ys' where
      t: "take_first P xs = Some (y, ys')" and ys: "ys = x # ys'"
      by (auto split: option.splits)
    from Cons.IH [OF t] obtain pre post where
      "xs = pre @ y # post" "ys' = pre @ post" "P y" "\<forall>x\<in>set pre. \<not> P x" by blast
    with False ys have "x # xs = (x # pre) @ y # post \<and> ys = (x # pre) @ post \<and> P y
        \<and> (\<forall>z\<in>set (x # pre). \<not> P z)" by simp
    then show ?thesis by blast
  qed
qed

lemma take_first_None: "take_first P xs = None \<Longrightarrow> \<forall>x\<in>set xs. \<not> P x"
  by (induction xs) (auto split: if_splits option.splits)

lemma highest_exists: "xs \<noteq> [] \<Longrightarrow> \<exists>e\<in>set xs. highest_in xs e"
proof (induction xs)
  case Nil
  then show ?case by simp
next
  case (Cons x xs)
  show ?case
  proof (cases "xs = []")
    case True
    then show ?thesis by (simp add: highest_in_def)
  next
    case False
    with Cons.IH obtain e where e: "e \<in> set xs" "highest_in xs e" by blast
    show ?thesis
    proof (cases "prio e \<le> prio x")
      case True
      with e have "highest_in (x # xs) x"
        by (auto simp: highest_in_def list_all_iff prio_def)
      then show ?thesis by auto
    next
      case False
      with e have "highest_in (x # xs) e"
        by (auto simp: highest_in_def list_all_iff prio_def)
      with e show ?thesis by auto
    qed
  qed
qed

lemma contract_pop_empty: "contract_pop [] = (0, None, [])"
  by (simp add: contract_pop_def)

lemma contract_pop_highest_earliest:
  assumes "pending \<noteq> []"
  shows "\<exists>e pre post. contract_pop pending = (1, Some e, pre @ post)
           \<and> pending = pre @ e # post
           \<and> (\<forall>x\<in>set pending. prio x \<le> prio e)
           \<and> (\<forall>x\<in>set pre. prio x < prio e)"
proof -
  from highest_exists [OF assms] obtain m where m: "m \<in> set pending" "highest_in pending m"
    by blast
  then have "take_first (highest_in pending) pending \<noteq> None"
    using take_first_None by blast
  then obtain e rest where t: "take_first (highest_in pending) pending = Some (e, rest)"
    by auto
  from take_first_split [OF t] obtain pre post where
    s: "pending = pre @ e # post" "rest = pre @ post" "highest_in pending e"
       "\<forall>x\<in>set pre. \<not> highest_in pending x" by blast
  have top: "\<forall>x\<in>set pending. prio x \<le> prio e"
    using s(3) by (simp add: highest_in_def list_all_iff prio_def)
  have low: "prio x < prio e" if "x \<in> set pre" for x
  proof -
    from that s(4) have "\<not> highest_in pending x" by blast
    then obtain z where "z \<in> set pending" "prio x < prio z"
      by (auto simp: highest_in_def list_all_iff prio_def)
    with top show ?thesis by fastforce
  qed
  have "contract_pop pending = (1, Some e, pre @ post)"
    using t s(2) by (simp add: contract_pop_def)
  with s(1) top low show ?thesis by blast
qed

text \<open>
  C1. For every sequence of pushes interleaved with pops, starting from the empty queue,
  each \<open>event_queue_pop\<close> returns what the ordering contract returns: result 1 with the
  event of highest priority among those enqueued and, among equals, the one pushed
  earliest; result 0 and no event when nothing is enqueued. A pop of the empty queue
  returns 0 and leaves the queue as it was.
\<close>

theorem event_queue_priority_fifo:
  "run_queue ops event_queue_init = run_contract ops []
   \<and> event_queue_pop [] = (0, None, [])"
proof
  show "run_queue ops event_queue_init = run_contract ops []"
    by (rule run_queue_refines) (rule queue_rel_init)
  show "event_queue_pop [] = (0, None, [])"
    by (simp add: event_queue_pop_def)
qed

subsection \<open>Resource transfers\<close>

lemma sint32_bounds: "- 2147483648 \<le> sint (x :: int32) \<and> sint x < 2147483648"
  using sint_ge [of x] sint_lt [of x] by simp

lemma sint32_diff:
  "- 2147483648 \<le> sint a - sint b \<Longrightarrow> sint a - sint b < 2147483648 \<Longrightarrow>
   sint (a - b :: int32) = sint a - sint b"
  by (simp add: sint_word_diff signed_take_bit_int_eq_self)

lemma sint32_add:
  "- 2147483648 \<le> sint a + sint b \<Longrightarrow> sint a + sint b < 2147483648 \<Longrightarrow>
   sint (a + b :: int32) = sint a + sint b"
  by (simp add: sint_word_add signed_take_bit_int_eq_self)

lemma transfer_into_sint:
  assumes "0 \<le> sint (amount r)" "sint (amount r) \<le> sint (max_capacity r)" "0 \<le> sint a"
  shows "sint (amount (fst (resource_transfer_into r a)))
           = sint (amount r) + min (sint a) (sint (max_capacity r) - sint (amount r))"
    and "sint (snd (resource_transfer_into r a))
           = sint a - min (sint a) (sint (max_capacity r) - sint (amount r))"
    and "max_capacity (fst (resource_transfer_into r a)) = max_capacity r"
    and "name (fst (resource_transfer_into r a)) = name r"
proof -
  have rc: "sint (max_capacity r - amount r) = sint (max_capacity r) - sint (amount r)"
    using assms sint32_bounds [of "max_capacity r"] sint32_bounds [of "amount r"]
    by (intro sint32_diff) simp_all
  show "sint (amount (fst (resource_transfer_into r a)))
           = sint (amount r) + min (sint a) (sint (max_capacity r) - sint (amount r))"
    using assms rc sint32_bounds [of "max_capacity r"] sint32_bounds [of a]
    by (simp add: resource_transfer_into_def Let_def word_sle_eq sint32_add sint32_diff)
  show "sint (snd (resource_transfer_into r a))
           = sint a - min (sint a) (sint (max_capacity r) - sint (amount r))"
    using assms rc sint32_bounds [of "max_capacity r"] sint32_bounds [of a]
    by (simp add: resource_transfer_into_def Let_def word_sle_eq sint32_add sint32_diff)
  show "max_capacity (fst (resource_transfer_into r a)) = max_capacity r"
    by (simp add: resource_transfer_into_def Let_def)
  show "name (fst (resource_transfer_into r a)) = name r"
    by (simp add: resource_transfer_into_def Let_def)
qed

lemma transfer_from_sint:
  assumes "0 \<le> sint (amount r)" "0 \<le> sint a"
  shows "sint (amount (fst (resource_transfer_from r a)))
           = sint (amount r) - min (sint a) (sint (amount r))"
    and "sint (snd (resource_transfer_from r a)) = sint a - min (sint a) (sint (amount r))"
    and "max_capacity (fst (resource_transfer_from r a)) = max_capacity r"
    and "name (fst (resource_transfer_from r a)) = name r"
proof -
  show "sint (amount (fst (resource_transfer_from r a)))
           = sint (amount r) - min (sint a) (sint (amount r))"
    using assms sint32_bounds [of "amount r"] sint32_bounds [of a]
    by (simp add: resource_transfer_from_def Let_def word_sless_alt sint32_diff)
  show "sint (snd (resource_transfer_from r a)) = sint a - min (sint a) (sint (amount r))"
    using assms sint32_bounds [of "amount r"] sint32_bounds [of a]
    by (simp add: resource_transfer_from_def Let_def word_sless_alt sint32_diff)
  show "max_capacity (fst (resource_transfer_from r a)) = max_capacity r"
    by (simp add: resource_transfer_from_def Let_def)
  show "name (fst (resource_transfer_from r a)) = name r"
    by (simp add: resource_transfer_from_def Let_def)
qed

text \<open>
  C2. For a resource with \<open>0 \<le> amount \<le> max_capacity\<close> and a requested amount that is not
  negative: after \<open>resource_transfer_into\<close> the amount is at most \<open>max_capacity\<close> and the
  residual plus the amount added is the requested amount; after \<open>resource_transfer_from\<close>
  the amount is not negative and the residual plus the amount removed is the requested
  amount. The sums are sums of integers: nothing wraps around. Both functions are total:
  each call returns a resource and a residual.
\<close>

theorem resource_transfer_postconditions:
  assumes "0 \<le> sint (amount r)" and "sint (amount r) \<le> sint (max_capacity r)"
    and "0 \<le> sint requested"
  shows "(case resource_transfer_into r requested of
            (r', residual) \<Rightarrow>
              sint (amount r') \<le> sint (max_capacity r')
              \<and> sint residual + (sint (amount r') - sint (amount r)) = sint requested)
       \<and> (case resource_transfer_from r requested of
            (r', residual) \<Rightarrow>
              0 \<le> sint (amount r')
              \<and> sint residual + (sint (amount r) - sint (amount r')) = sint requested)"
  using transfer_into_sint [OF assms] transfer_from_sint [OF assms(1) assms(3)]
  by (simp add: case_prod_beta)

theorem resource_transfer_postconditions_witness:
  "(case resource_transfer_into \<lparr>name = ''Oxygen'', amount = 48, max_capacity = 50\<rparr> 5 of
      (r', residual) \<Rightarrow> amount r' = 50 \<and> residual = 3
        \<and> sint (amount r') \<le> sint (max_capacity r')
        \<and> sint residual + (sint (amount r') - 48) = 5)
   \<and> (case resource_transfer_from \<lparr>name = ''Oxygen'', amount = 3, max_capacity = 50\<rparr> 5 of
      (r', residual) \<Rightarrow> amount r' = 0 \<and> residual = 2
        \<and> 0 \<le> sint (amount r')
        \<and> sint residual + (3 - sint (amount r')) = 5)"
  using resource_transfer_postconditions [of "\<lparr>name = ''Oxygen'', amount = 48, max_capacity = 50\<rparr>" 5]
    resource_transfer_postconditions [of "\<lparr>name = ''Oxygen'', amount = 3, max_capacity = 50\<rparr>" 5]
  by (simp add: resource_transfer_into_def resource_transfer_from_def Let_def)


subsection \<open>The manager\<close>

lemma deref_Inr: "deref heap p = Inr obj \<longleftrightarrow> p \<noteq> NULL \<and> heap p = Some obj"
  by (auto simp: deref_def split: option.splits)

lemma deref_Inl: "deref heap p = Inl f \<longleftrightarrow> f = Segfault \<and> (p = NULL \<or> heap p = None)"
  by (auto simp: deref_def split: option.splits)

lemma manager_run_update_result:
  "all_valid heap ps \<Longrightarrow>
   \<exists>heap'. manager_run_update m res ps heap = Inr heap'
     \<and> (\<forall>p. heap' p = map_option
           (\<lambda>sys. if p \<in> set ps \<and> mode sys \<noteq> MODE_TERMINATE
                      \<and> (m = MODE_TERMINATE \<or> output (recipe sys) = res)
                   then sys\<lparr>mode := m\<rparr> else sys) (heap p))"
proof (induction ps arbitrary: heap)
  case Nil
  then show ?case by (simp add: option.map_ident)
next
  case (Cons sp rest)
  from Cons.prems obtain sys where sys: "sp \<noteq> NULL" "heap sp = Some sys"
    by (auto simp: all_valid_def)
  then have d: "deref heap sp = Inr sys" by (simp add: deref_Inr)
  have v: "all_valid heap rest" using Cons.prems by (simp add: all_valid_def)
  show ?case
  proof (cases "mode sys \<noteq> MODE_TERMINATE \<and> (m = MODE_TERMINATE \<or> output (recipe sys) = res)")
    case False
    from Cons.IH [OF v] obtain heap' where
      h: "manager_run_update m res rest heap = Inr heap'"
         "\<forall>p. heap' p = map_option
           (\<lambda>sys. if p \<in> set rest \<and> mode sys \<noteq> MODE_TERMINATE
                      \<and> (m = MODE_TERMINATE \<or> output (recipe sys) = res)
                   then sys\<lparr>mode := m\<rparr> else sys) (heap p)" by blast
    have "manager_run_update m res (sp # rest) heap = Inr heap'"
      using False d h(1) by (auto simp: system_get_mode_def)
    moreover have "heap' p = map_option
           (\<lambda>sys. if p \<in> set (sp # rest) \<and> mode sys \<noteq> MODE_TERMINATE
                      \<and> (m = MODE_TERMINATE \<or> output (recipe sys) = res)
                   then sys\<lparr>mode := m\<rparr> else sys) (heap p)" for p
      using h(2) False sys by (cases "p = sp") auto
    ultimately show ?thesis by blast
  next
    case True
    let ?heap = "heap(sp \<mapsto> system_set_mode sys m)"
    have "all_valid ?heap rest" using v by (auto simp: all_valid_def list_all_iff)
    from Cons.IH [OF this] obtain heap' where
      h: "manager_run_update m res rest ?heap = Inr heap'"
         "\<forall>p. heap' p = map_option
           (\<lambda>sys. if p \<in> set rest \<and> mode sys \<noteq> MODE_TERMINATE
                      \<and> (m = MODE_TERMINATE \<or> output (recipe sys) = res)
                   then sys\<lparr>mode := m\<rparr> else sys) (?heap p)" by blast
    have "manager_run_update m res (sp # rest) heap = Inr heap'"
      using True d h(1) by (auto simp: system_get_mode_def)
    moreover have "heap' p = map_option
           (\<lambda>sys. if p \<in> set (sp # rest) \<and> mode sys \<noteq> MODE_TERMINATE
                      \<and> (m = MODE_TERMINATE \<or> output (recipe sys) = res)
                   then sys\<lparr>mode := m\<rparr> else sys) (heap p)" for p
      using h(2) True sys by (cases "p = sp") (auto simp: system_set_mode_def)
    ultimately show ?thesis by blast
  qed
qed

lemma decide_chain:
  "(if a then (MODE_TERMINATE, f) else if b then (MODE_TERMINATE, g)
    else if c then (MODE_FAST, w) else if d then (MODE_SLOW, w) else (MODE_STANDARD, w))
     = (m, w3) \<Longrightarrow>
   m = (if a \<or> b then MODE_TERMINATE else if c then MODE_FAST
        else if d then MODE_SLOW else MODE_STANDARD)
   \<and> w3 = (if a then f else if b then g else w)"
  by (simp split: if_splits)

lemma manager_run_decide_eq:
  assumes "manager_run_decide event res w = (m, w3)"
  shows "m = claimed_target event res
   \<and> simulation_running w3 = (if claimed_terminate event res then 0 else simulation_running w)
   \<and> system_heap w3 = system_heap w \<and> resource_heap w3 = resource_heap w
   \<and> event_queue w3 = event_queue w \<and> system_array w3 = system_array w
   \<and> resources w3 = resources w"
proof -
  define a where "a \<longleftrightarrow> status event = EVENT_INSUFFICIENT \<and> name res = ''Oxygen''"
  define b where "b \<longleftrightarrow> status event = EVENT_CAPACITY \<and> name res = ''Distance''"
  define f where "f = (printf (''Oxygen depleted. Terminating all systems.'' @ [CHR 0x0A])
               (display_finish_sim w))\<lparr>simulation_running := 0\<rparr>"
  define g where "g = (printf (''Destination reached. Terminating all systems.'' @ [CHR 0x0A])
               (display_finish_sim w))\<lparr>simulation_running := 0\<rparr>"
  note chain = decide_chain [OF assms [unfolded manager_run_decide_def Let_def],
      folded a_def b_def f_def g_def]
  have t: "claimed_terminate event res \<longleftrightarrow> a \<or> b"
    by (simp add: claimed_terminate_def a_def b_def)
  have m: "m = claimed_target event res"
    using chain unfolding claimed_target_def t by simp
  have f: "simulation_running f = 0" "system_heap f = system_heap w"
    "resource_heap f = resource_heap w" "event_queue f = event_queue w"
    "system_array f = system_array w" "resources f = resources w"
    by (simp_all add: f_def printf_def display_finish_sim_def)
  have g: "simulation_running g = 0" "system_heap g = system_heap w"
    "resource_heap g = resource_heap w" "event_queue g = event_queue w"
    "system_array g = system_array w" "resources g = resources w"
    by (simp_all add: g_def printf_def display_finish_sim_def)
  have w3: "w3 = (if a then f else if b then g else w)" using chain by simp
  show ?thesis unfolding w3 t using m f g by simp
qed

lemma target_terminate_iff:
  "claimed_target event res = MODE_TERMINATE \<longleftrightarrow> claimed_terminate event res"
  by (simp add: claimed_target_def MODE_TERMINATE_def MODE_FAST_def MODE_SLOW_def MODE_STANDARD_def)

lemma manager_run_body_active:
  assumes "priority event \<noteq> PRIORITY_IGN"
    and "deref (system_heap w) (system event) = Inr origin"
    and "deref (resource_heap w) (resource event) = Inr res"
  shows "manager_run_body event w =
     (case manager_run_decide event res
             (w\<lparr>trace := trace w @ [Printf (''Manager: Event popped '' @ sname origin @ [CHR 0x0A]),
                                     Display_event event]\<rparr>) of
        (m, w3) \<Rightarrow>
          (case manager_run_update m (resource event) (system_array w3) (system_heap w3) of
             Inl f \<Rightarrow> Inl f
           | Inr heap \<Rightarrow>
               Inr (usleep (c_div (PARAM_MANAGER_WAIT * 1000) PARAM_SPEED_MODIFIER)
                      (w3\<lparr>system_heap := heap\<rparr>))))"
  using assms by (simp add: manager_run_body_def display_event_def printf_def Let_def)

text \<open>
  C3. For a popped event whose priority is not IGNORED (with valid system, resource and
  array pointers), one pass of \<open>manager_run\<close>'s loop succeeds; it decides Terminate exactly
  when the spec's termination condition holds and then clears \<open>simulation_running\<close>;
  otherwise the mode is the spec's target. Every system's record afterwards is the spec's
  reaction applied to its record before: systems outside the reacting set, and everything
  else but the trace, are unchanged.
\<close>

theorem manager_run_body_decision:
  assumes ign: "priority event \<noteq> PRIORITY_IGN"
    and origin: "deref (system_heap w) (system event) = Inr origin"
    and res: "deref (resource_heap w) (resource event) = Inr res"
    and valid: "all_valid (system_heap w) (system_array w)"
  shows "\<exists>w'. manager_run_body event w = Inr w'
      \<and> (claimed_target event res = MODE_TERMINATE \<longleftrightarrow> claimed_terminate event res)
      \<and> simulation_running w' = (if claimed_terminate event res then 0 else simulation_running w)
      \<and> (\<forall>p. system_heap w' p
             = map_option (claimed_reaction event res (system_array w) p) (system_heap w p))
      \<and> resource_heap w' = resource_heap w
      \<and> event_queue w' = event_queue w
      \<and> system_array w' = system_array w"
proof -
  let ?w2 = "w\<lparr>trace := trace w @ [Printf (''Manager: Event popped '' @ sname origin @ [CHR 0x0A]),
                                     Display_event event]\<rparr>"
  obtain m w3 where dec: "manager_run_decide event res ?w2 = (m, w3)" by fastforce
  note d = manager_run_decide_eq [OF dec]
  have same: "system_heap w3 = system_heap w" "system_array w3 = system_array w"
    "resource_heap w3 = resource_heap w" "event_queue w3 = event_queue w"
    using d by simp_all
  have run: "simulation_running w3 = (if claimed_terminate event res then 0 else simulation_running w)"
    using d by simp
  from manager_run_update_result [OF valid, of m "resource event"] obtain heap' where
    h: "manager_run_update m (resource event) (system_array w) (system_heap w) = Inr heap'"
       "\<forall>p. heap' p = map_option
           (\<lambda>sys. if p \<in> set (system_array w) \<and> mode sys \<noteq> MODE_TERMINATE
                      \<and> (m = MODE_TERMINATE \<or> output (recipe sys) = resource event)
                   then sys\<lparr>mode := m\<rparr> else sys) (system_heap w p)" by blast
  have body: "manager_run_body event w
      = Inr (usleep (c_div (PARAM_MANAGER_WAIT * 1000) PARAM_SPEED_MODIFIER)
               (w3\<lparr>system_heap := heap'\<rparr>))"
    unfolding manager_run_body_active [OF ign origin res] dec
    by (simp add: same h(1))
  have m: "m = claimed_target event res" using d by simp
  have react: "heap' p = map_option (claimed_reaction event res (system_array w) p) (system_heap w p)" for p
    using h(2) target_terminate_iff [of event res] unfolding m
    by (simp add: claimed_reaction_def [abs_def])
  show ?thesis
    using body react run same target_terminate_iff [of event res]
    by (simp add: usleep_def)
qed


theorem manager_run_body_decision_witness:
  "priority (event_init 13 2 EVENT_INSUFFICIENT) \<noteq> PRIORITY_IGN
   \<and> all_valid (system_heap load_data) (system_array load_data)
   \<and> (\<exists>w'. manager_run_body (event_init 13 2 EVENT_INSUFFICIENT) load_data = Inr w'
         \<and> simulation_running w' = 0
         \<and> map (\<lambda>p. map_option mode (system_heap w' p)) [11, 12, 13, 14, 15]
             = [Some MODE_TERMINATE, Some MODE_TERMINATE, Some MODE_TERMINATE,
                Some MODE_TERMINATE, None]
         \<and> resource_heap w' = resource_heap load_data)
   \<and> (\<exists>w'. manager_run_body (event_init 12 3 EVENT_LOW) load_data = Inr w'
         \<and> simulation_running w' = 1
         \<and> map (\<lambda>p. map_option mode (system_heap w' p)) [11, 12, 13, 14, 15]
             = [Some MODE_STANDARD, Some MODE_STANDARD, Some MODE_STANDARD,
                Some MODE_FAST, None])"
proof -
  let ?e = "event_init 13 2 EVENT_INSUFFICIENT"
  let ?e2 = "event_init 12 3 EVENT_LOW"
  have ign: "priority ?e \<noteq> PRIORITY_IGN" "priority ?e2 \<noteq> PRIORITY_IGN"
    by (simp_all add: event_init_def EVENT_INSUFFICIENT_def EVENT_LOW_def PRIORITY_HIGH_def
        PRIORITY_MED_def PRIORITY_IGN_def)
  have origin: "deref (system_heap load_data) (system ?e)
      = Inr \<lparr>sname = ''Crew'', recipe = recipe_init 2 NULL 5 0 200, mode = MODE_STANDARD\<rparr>"
    by (simp add: deref_def event_init_def NULL_def load_data_systems)
  have origin2: "deref (system_heap load_data) (system ?e2)
      = Inr \<lparr>sname = ''Life Support'', recipe = recipe_init 3 2 10 5 100, mode = MODE_STANDARD\<rparr>"
    by (simp add: deref_def event_init_def NULL_def load_data_systems)
  have res: "deref (resource_heap load_data) (resource ?e)
      = Inr \<lparr>name = ''Oxygen'', amount = 20, max_capacity = 50\<rparr>"
    by (simp add: deref_def event_init_def NULL_def load_data_resources)
  have res2: "deref (resource_heap load_data) (resource ?e2)
      = Inr \<lparr>name = ''Energy'', amount = 30, max_capacity = 50\<rparr>"
    by (simp add: deref_def event_init_def NULL_def load_data_resources)
  have valid: "all_valid (system_heap load_data) (system_array load_data)"
    by (simp add: all_valid_def load_data_fields load_data_systems NULL_def)
  have t: "claimed_terminate ?e \<lparr>name = ''Oxygen'', amount = 20, max_capacity = 50\<rparr>"
    by (simp add: claimed_terminate_def event_init_def)
  have t2: "\<not> claimed_terminate ?e2 \<lparr>name = ''Energy'', amount = 30, max_capacity = 50\<rparr>"
    by (simp add: claimed_terminate_def event_init_def)
  have tg2: "claimed_target ?e2 \<lparr>name = ''Energy'', amount = 30, max_capacity = 50\<rparr> = MODE_FAST"
    using t2 by (simp add: claimed_target_def event_init_def)
  have tg: "claimed_target ?e \<lparr>name = ''Oxygen'', amount = 20, max_capacity = 50\<rparr> = MODE_TERMINATE"
    using t by (simp add: claimed_target_def)
  have std: "MODE_STANDARD \<noteq> MODE_TERMINATE" by (simp add: MODE_STANDARD_def MODE_TERMINATE_def)
  from manager_run_body_decision [OF ign(1) origin res valid] obtain w' where
    w': "manager_run_body ?e load_data = Inr w'" "simulation_running w' = 0"
      "\<forall>p. system_heap w' p = map_option
         (claimed_reaction ?e \<lparr>name = ''Oxygen'', amount = 20, max_capacity = 50\<rparr>
            (system_array load_data) p) (system_heap load_data p)"
      "resource_heap w' = resource_heap load_data"
    using t by auto
  have modes: "map (\<lambda>p. map_option mode (system_heap w' p)) [11, 12, 13, 14, 15]
             = [Some MODE_TERMINATE, Some MODE_TERMINATE, Some MODE_TERMINATE,
                Some MODE_TERMINATE, None]"
    using w'(3) t tg std
    by (simp add: claimed_reaction_def load_data_fields load_data_systems) (simp add: load_data_def)
  from manager_run_body_decision [OF ign(2) origin2 res2 valid] obtain w2 where
    w2: "manager_run_body ?e2 load_data = Inr w2" "simulation_running w2 = 1"
      "\<forall>p. system_heap w2 p = map_option
         (claimed_reaction ?e2 \<lparr>name = ''Energy'', amount = 30, max_capacity = 50\<rparr>
            (system_array load_data) p) (system_heap load_data p)"
    using t2 by (auto simp: load_data_fields)
  have modes2: "map (\<lambda>p. map_option mode (system_heap w2 p)) [11, 12, 13, 14, 15]
             = [Some MODE_STANDARD, Some MODE_STANDARD, Some MODE_STANDARD,
                Some MODE_FAST, None]"
    using w2(3) t2 tg2 std
    by (simp add: claimed_reaction_def load_data_fields load_data_systems recipe_init_def
        event_init_def NULL_def) (simp add: load_data_def)
  have first: "\<exists>w'. manager_run_body ?e load_data = Inr w'
         \<and> simulation_running w' = 0
         \<and> map (\<lambda>p. map_option mode (system_heap w' p)) [11, 12, 13, 14, 15]
             = [Some MODE_TERMINATE, Some MODE_TERMINATE, Some MODE_TERMINATE,
                Some MODE_TERMINATE, None]
         \<and> resource_heap w' = resource_heap load_data"
    by (intro exI conjI) (fact w'(1), fact w'(2), fact modes, fact w'(4))
  have second: "\<exists>w'. manager_run_body ?e2 load_data = Inr w'
         \<and> simulation_running w' = 1
         \<and> map (\<lambda>p. map_option mode (system_heap w' p)) [11, 12, 13, 14, 15]
             = [Some MODE_STANDARD, Some MODE_STANDARD, Some MODE_STANDARD,
                Some MODE_FAST, None]"
    by (intro exI conjI) (fact w2(1), fact w2(2), fact modes2)
  show ?thesis by (intro conjI) (fact ign(1), fact valid, fact first, fact second)
qed


lemma manager_run_loop_stopped: "simulation_running w = 0 \<Longrightarrow> manager_run_loop w = Inr w"
  by (subst manager_run_loop.simps) simp

lemma manager_run_loop_empty: "event_queue w = [] \<Longrightarrow> manager_run_loop w = Inr w"
  by (subst manager_run_loop.simps) (simp add: event_queue_pop_def)

lemma manager_run_loop_pop:
  "simulation_running w \<noteq> 0 \<Longrightarrow> event_queue w = event # queue' \<Longrightarrow>
   manager_run_loop w =
     (case manager_run_body event (w\<lparr>event_queue := queue'\<rparr>) of
        Inl f \<Rightarrow> Inl f
      | Inr w' \<Rightarrow> manager_run_loop w')"
  by (subst manager_run_loop.simps) (simp add: event_queue_pop_def)

text \<open>
  C7, as the code has it. For a popped event whose priority is IGNORED, the pass prints
  the debug line naming the event's system and does nothing else: no system's mode
  changes, \<open>simulation_running\<close> does not change, and \<open>display_event\<close> is not called (the
  \<^verbatim>\<open>continue\<close> comes before it).
\<close>

theorem manager_run_body_ignored:
  assumes "priority event = PRIORITY_IGN"
    and "deref (system_heap w) (system event) = Inr origin"
  shows "manager_run_body event w
     = Inr (w\<lparr>trace := trace w @ [Printf (''Manager: Event popped '' @ sname origin @ [CHR 0x0A])]\<rparr>)"
  using assms by (simp add: manager_run_body_def printf_def Let_def)

theorem manager_run_body_ignored_witness:
  "priority (event_init 11 1 EVENT_PRODUCED) = PRIORITY_IGN
   \<and> manager_run_body (event_init 11 1 EVENT_PRODUCED) load_data
     = Inr (load_data\<lparr>trace := [Printf (''Manager: Event popped Propulsion'' @ [CHR 0x0A])]\<rparr>)"
proof -
  have ign: "priority (event_init 11 1 EVENT_PRODUCED) = PRIORITY_IGN"
    by (simp add: event_init_def EVENT_PRODUCED_def PRIORITY_IGN_def)
  have origin: "deref (system_heap load_data) (system (event_init 11 1 EVENT_PRODUCED))
      = Inr \<lparr>sname = ''Propulsion'', recipe = recipe_init 1 4 5 25 500, mode = MODE_STANDARD\<rparr>"
    by (simp add: deref_def event_init_def NULL_def load_data_systems)
  show ?thesis
    using ign manager_run_body_ignored [OF ign origin] by (simp add: load_data_fields)
qed

text \<open>
  The spec has the ignored event forwarded to the display all the same. It is not: with
  one Produced event queued, \<open>manager_run\<close> ends with a trace that holds no call of
  \<open>display_event\<close>.
\<close>

theorem ignored_event_not_displayed:
  "manager_run (load_data\<lparr>event_queue := [event_init 11 1 EVENT_PRODUCED]\<rparr>)
     = Inr (load_data\<lparr>trace := [Display_simulation_state,
                                  Printf (''Manager: Event popped Propulsion'' @ [CHR 0x0A])]\<rparr>)
   \<and> Display_event (event_init 11 1 EVENT_PRODUCED)
       \<notin> set [Display_simulation_state, Printf (''Manager: Event popped Propulsion'' @ [CHR 0x0A])]"
proof -
  define e where "e = event_init 11 1 EVENT_PRODUCED"
  define w1 where "w1 = display_simulation_state (load_data\<lparr>event_queue := [e]\<rparr>)"
  define w2 where "w2 = load_data\<lparr>trace := [Display_simulation_state,
                                  Printf (''Manager: Event popped Propulsion'' @ [CHR 0x0A])]\<rparr>"
  have r1: "simulation_running w1 \<noteq> 0" and q1: "event_queue w1 = e # []"
    by (simp_all add: w1_def display_simulation_state_def load_data_fields)
  have body: "manager_run_body e (w1\<lparr>event_queue := []\<rparr>) = Inr w2"
    by (simp add: manager_run_body_def printf_def Let_def deref_def e_def event_init_def
        NULL_def EVENT_PRODUCED_def PRIORITY_IGN_def w1_def w2_def display_simulation_state_def
        load_data_def event_queue_init_def)
  have "event_queue w2 = []" by (simp add: w2_def load_data_fields)
  then have "manager_run_loop w2 = Inr w2" by (rule manager_run_loop_empty)
  with body have "manager_run_loop w1 = Inr w2"
    by (simp add: manager_run_loop_pop [OF r1 q1])
  then show ?thesis by (simp add: manager_run_def w1_def w2_def e_def)
qed


lemma manager_run_update_keeps:
  "manager_run_update m res ps heap = Inr heap' \<Longrightarrow> heap p = Some sys \<Longrightarrow>
   mode sys = MODE_TERMINATE \<Longrightarrow> heap' p = Some sys"
proof (induction ps arbitrary: heap)
  case Nil
  then show ?case by simp
next
  case (Cons sp rest)
  from Cons.prems(1) obtain s0 where d: "deref heap sp = Inr s0"
    by (auto split: sum.splits)
  show ?case
  proof (cases "mode s0 \<noteq> MODE_TERMINATE \<and> (m = MODE_TERMINATE \<or> output (recipe s0) = res)")
    case True
    with d Cons.prems(2,3) have "sp \<noteq> p" by (auto simp: deref_Inr)
    then have "(heap(sp \<mapsto> system_set_mode s0 m)) p = Some sys" using Cons.prems(2) by simp
    moreover have "manager_run_update m res rest (heap(sp \<mapsto> system_set_mode s0 m)) = Inr heap'"
      using Cons.prems(1) d True by (auto simp: system_get_mode_def)
    ultimately show ?thesis using Cons.IH Cons.prems(3) by blast
  next
    case False
    then have "manager_run_update m res rest heap = Inr heap'"
      using Cons.prems(1) d by (auto simp: system_get_mode_def split: if_splits)
    then show ?thesis using Cons.IH Cons.prems(2,3) by blast
  qed
qed

lemma manager_run_body_cases:
  assumes "manager_run_body event w = Inr w'"
  shows "(\<exists>line. w' = printf line w)
     \<or> (\<exists>res m w2 w3 heap'. system_heap w2 = system_heap w
           \<and> resource_heap w2 = resource_heap w
           \<and> manager_run_decide event res w2 = (m, w3)
           \<and> manager_run_update m (resource event) (system_array w3) (system_heap w3) = Inr heap'
           \<and> w' = usleep (c_div (PARAM_MANAGER_WAIT * 1000) PARAM_SPEED_MODIFIER)
                    (w3\<lparr>system_heap := heap'\<rparr>))"
proof -
  from assms obtain origin where o: "deref (system_heap w) (system event) = Inr origin"
    by (auto simp: manager_run_body_def split: sum.splits)
  define w1 where "w1 = printf (''Manager: Event popped '' @ sname origin @ [CHR 0x0A]) w"
  have body: "manager_run_body event w =
       (if priority event = PRIORITY_IGN then Inr w1
        else
             (case display_event event w1 of
                Inl f \<Rightarrow> Inl f
              | Inr w2 \<Rightarrow>
                  (case deref (resource_heap w2) (resource event) of
                     Inl f \<Rightarrow> Inl f
                   | Inr res \<Rightarrow>
                       (case manager_run_decide event res w2 of
                          (m, w3) \<Rightarrow>
                            (case manager_run_update m (resource event) (system_array w3)
                                    (system_heap w3) of
                               Inl f \<Rightarrow> Inl f
                             | Inr heap \<Rightarrow>
                                 Inr (usleep (c_div (PARAM_MANAGER_WAIT * 1000) PARAM_SPEED_MODIFIER)
                                        (w3\<lparr>system_heap := heap\<rparr>)))))))"
    unfolding manager_run_body_def o w1_def by (simp only: sum.case Let_def)
  show ?thesis
  proof (cases "priority event = PRIORITY_IGN")
    case True
    with assms body have "w' = w1" by simp
    then show ?thesis unfolding w1_def by blast
  next
    case False
    with assms body obtain w2 where w2: "display_event event w1 = Inr w2"
      by (auto split: sum.splits)
    then have h2: "system_heap w2 = system_heap w" "resource_heap w2 = resource_heap w"
      by (auto simp: display_event_def w1_def printf_def split: sum.splits)
    from assms body False w2 obtain res where r: "deref (resource_heap w2) (resource event) = Inr res"
      by (auto split: sum.splits)
    obtain m w3 where dec: "manager_run_decide event res w2 = (m, w3)" by fastforce
    from assms body False w2 r dec obtain heap' where
      "manager_run_update m (resource event) (system_array w3) (system_heap w3) = Inr heap'"
      "w' = usleep (c_div (PARAM_MANAGER_WAIT * 1000) PARAM_SPEED_MODIFIER) (w3\<lparr>system_heap := heap'\<rparr>)"
      by (auto split: sum.splits)
    with h2 dec show ?thesis by blast
  qed
qed

lemma manager_run_body_keeps:
  assumes "manager_run_body event w = Inr w'" and "system_heap w p = Some sys"
    and "mode sys = MODE_TERMINATE"
  shows "system_heap w' p = Some sys"
  using manager_run_body_cases [OF assms(1)]
proof (elim disjE exE conjE)
  fix line assume "w' = printf line w"
  with assms(2) show ?thesis by (simp add: printf_def)
next
  fix res m w2 w3 heap'
  assume h2: "system_heap w2 = system_heap w"
    and dec: "manager_run_decide event res w2 = (m, w3)"
    and upd: "manager_run_update m (resource event) (system_array w3) (system_heap w3) = Inr heap'"
    and w': "w' = usleep (c_div (PARAM_MANAGER_WAIT * 1000) PARAM_SPEED_MODIFIER)
                    (w3\<lparr>system_heap := heap'\<rparr>)"
  have "system_heap w3 p = Some sys"
    using manager_run_decide_eq [OF dec] h2 assms(2) by simp
  from manager_run_update_keeps [OF upd this assms(3)] show ?thesis
    by (simp add: w' usleep_def)
qed

lemma manager_run_loop_keeps:
  "manager_run_loop w = Inr w' \<Longrightarrow> system_heap w p = Some sys \<Longrightarrow>
   mode sys = MODE_TERMINATE \<Longrightarrow> system_heap w' p = Some sys"
proof (induction w rule: manager_run_loop.induct)
  case (1 w)
  show ?case
  proof (cases "simulation_running w = 0")
    case True
    with "1.prems" show ?thesis by (simp add: manager_run_loop_stopped)
  next
    case False
    show ?thesis
    proof (cases "event_queue w")
      case Nil
      with "1.prems" show ?thesis by (simp add: manager_run_loop_empty)
    next
      case (Cons event queue')
      from "1.prems"(1) manager_run_loop_pop [OF False Cons] obtain w1 where
        b: "manager_run_body event (w\<lparr>event_queue := queue'\<rparr>) = Inr w1"
        and l: "manager_run_loop w1 = Inr w'"
        by (auto split: sum.splits)
      have "system_heap w1 p = Some sys"
        using manager_run_body_keeps [OF b _ "1.prems"(3)] "1.prems"(2) by simp
      moreover have pop: "event_queue_pop (event_queue w) = (1, Some event, queue')"
        by (simp add: event_queue_pop_def Cons)
      ultimately show ?thesis
        using "1.IH" [OF False pop [symmetric] refl, of True "Some event" event w1] b l "1.prems"(3)
        by simp
    qed
  qed
qed


lemma manager_run_keeps:
  "manager_run w = Inr w' \<Longrightarrow> system_heap w p = Some sys \<Longrightarrow>
   mode sys = MODE_TERMINATE \<Longrightarrow> system_heap w' p = Some sys"
  unfolding manager_run_def
  by (rule manager_run_loop_keeps [of "display_simulation_state w"])
     (simp_all add: display_simulation_state_def)

lemma manager_thread_loop_keeps:
  "manager_thread_loop fuel w = Inr w' \<Longrightarrow> system_heap w p = Some sys \<Longrightarrow>
   mode sys = MODE_TERMINATE \<Longrightarrow> system_heap w' p = Some sys"
proof (induction fuel arbitrary: w)
  case 0
  then show ?case by (simp split: if_splits)
next
  case (Suc fuel)
  show ?case
  proof (cases "simulation_running w \<noteq> 0")
    case False
    with Suc.prems show ?thesis by simp
  next
    case True
    with Suc.prems(1) obtain w1 where
      r: "manager_run w = Inr w1"
      and l: "manager_thread_loop fuel
                (usleep (c_div (PARAM_MANAGER_WAIT * 1000) PARAM_SPEED_MODIFIER) w1) = Inr w'"
      by (auto split: sum.splits)
    have "system_heap w1 p = Some sys"
      by (rule manager_run_keeps [OF r Suc.prems(2) Suc.prems(3)])
    then have "system_heap (usleep (c_div (PARAM_MANAGER_WAIT * 1000) PARAM_SPEED_MODIFIER) w1) p
        = Some sys" by (simp add: usleep_def)
    from Suc.IH [OF l this Suc.prems(3)] show ?thesis .
  qed
qed

lemma manager_thread_keeps:
  "manager_thread fuel w = Inr w' \<Longrightarrow> system_heap w p = Some sys \<Longrightarrow>
   mode sys = MODE_TERMINATE \<Longrightarrow> system_heap w' p = Some sys"
proof -
  assume a: "manager_thread fuel w = Inr w'" and h: "system_heap w p = Some sys"
    and m: "mode sys = MODE_TERMINATE"
  from a obtain w1 where
    l: "manager_thread_loop fuel (printf (''Manager thread started'' @ [CHR 0x0A]) w) = Inr w1"
    and w': "w' = printf (''Manager thread ended'' @ [CHR 0x0A]) w1"
    by (auto simp: manager_thread_def split: sum.splits)
  have "system_heap (printf (''Manager thread started'' @ [CHR 0x0A]) w) p = Some sys"
    using h by (simp add: printf_def)
  from manager_thread_loop_keeps [OF l this m] show ?thesis by (simp add: w' printf_def)
qed

lemma system_run_pull_terminated:
  "mode sys = MODE_TERMINATE \<Longrightarrow> system_run_pull fuel p sys a w = Inr (False, a, w)"
  by (cases fuel) (simp_all add: system_get_mode_def)

lemma system_run_push_terminated:
  "mode sys = MODE_TERMINATE \<Longrightarrow> system_run_push fuel p sys a w = Inr (False, a, w)"
  by (cases fuel) (simp_all add: system_get_mode_def)

lemma system_thread_terminated:
  "system_heap w p = Some sys \<Longrightarrow> mode sys = MODE_TERMINATE \<Longrightarrow> p \<noteq> NULL \<Longrightarrow>
   system_thread fuel p w = Inr w"
  by (cases fuel) (simp_all add: system_thread_def deref_def system_get_mode_def)

text \<open>
  C4. A system whose mode is Terminate keeps its record, mode included, through every pass
  of \<open>manager_run\<close>'s loop, every \<open>manager_run\<close> and every \<open>manager_thread\<close> that returns,
  whatever the events are. Each loop of the system tests the mode before anything else:
  the input and output loops of \<open>system_run\<close> and the loop of \<open>system_thread\<close> end at once,
  with the state as it was.
\<close>

theorem terminate_is_absorbing:
  assumes "system_heap w p = Some sys" and "mode sys = MODE_TERMINATE"
  shows "(\<forall>event w'. manager_run_body event w = Inr w' \<longrightarrow> system_heap w' p = Some sys)
     \<and> (\<forall>w'. manager_run w = Inr w' \<longrightarrow> system_heap w' p = Some sys)
     \<and> (\<forall>fuel w'. manager_thread fuel w = Inr w' \<longrightarrow> system_heap w' p = Some sys)
     \<and> (\<forall>fuel a. system_run_pull fuel p sys a w = Inr (False, a, w))
     \<and> (\<forall>fuel a. system_run_push fuel p sys a w = Inr (False, a, w))
     \<and> (\<forall>fuel. p \<noteq> NULL \<longrightarrow> system_thread fuel p w = Inr w)"
proof (intro conjI allI impI)
  fix event w' assume "manager_run_body event w = Inr w'"
  then show "system_heap w' p = Some sys" using assms by (rule manager_run_body_keeps)
next
  fix w' assume "manager_run w = Inr w'"
  then show "system_heap w' p = Some sys" using assms by (rule manager_run_keeps)
next
  fix fuel w' assume "manager_thread fuel w = Inr w'"
  then show "system_heap w' p = Some sys" using assms by (rule manager_thread_keeps)
next
  fix fuel a
  show "system_run_pull fuel p sys a w = Inr (False, a, w)"
    using assms(2) by (rule system_run_pull_terminated)
  show "system_run_push fuel p sys a w = Inr (False, a, w)"
    using assms(2) by (rule system_run_push_terminated)
next
  fix fuel assume "p \<noteq> NULL"
  with assms show "system_thread fuel p w = Inr w" by (rule system_thread_terminated)
qed

lemma terminated_propulsion_run:
  "manager_run terminated_propulsion
     = Inr (terminated_propulsion
              \<lparr>event_queue := [],
               trace := [Display_simulation_state,
                         Printf (''Manager: Event popped Life Support'' @ [CHR 0x0A]),
                         Display_event (event_init 12 4 EVENT_HIGH),
                         Usleep 10000]\<rparr>)"
proof -
  define e where "e = event_init 12 4 EVENT_HIGH"
  define w1 where "w1 = display_simulation_state terminated_propulsion"
  define w2 where "w2 = terminated_propulsion
              \<lparr>event_queue := [],
               trace := [Display_simulation_state,
                         Printf (''Manager: Event popped Life Support'' @ [CHR 0x0A]),
                         Display_event e, Usleep 10000]\<rparr>"
  have r1: "simulation_running w1 \<noteq> 0" and q1: "event_queue w1 = e # []"
    by (simp_all add: w1_def display_simulation_state_def terminated_propulsion_def
        load_data_fields e_def)
  have body: "manager_run_body e (w1\<lparr>event_queue := []\<rparr>) = Inr w2"
    by (simp add: manager_run_body_def manager_run_decide_def display_event_def printf_def
        usleep_def Let_def deref_def e_def event_init_def
        NULL_def EVENT_HIGH_def EVENT_LOW_def EVENT_CAPACITY_def EVENT_INSUFFICIENT_def
        PRIORITY_IGN_def PRIORITY_MED_def PRIORITY_HIGH_def
        MODE_TERMINATE_def MODE_SLOW_def MODE_STANDARD_def
        system_get_mode_def system_set_mode_def recipe_init_def c_div_def
        PARAM_MANAGER_WAIT_def PARAM_SPEED_MODIFIER_def
        w1_def w2_def display_simulation_state_def terminated_propulsion_def
        load_data_def event_queue_init_def)
  have "event_queue w2 = []" by (simp add: w2_def)
  then have "manager_run_loop w2 = Inr w2" by (rule manager_run_loop_empty)
  with body have "manager_run_loop w1 = Inr w2"
    by (simp add: manager_run_loop_pop [OF r1 q1])
  then show ?thesis by (simp add: manager_run_def w1_def w2_def e_def)
qed


theorem terminate_is_absorbing_witness:
  "system_heap terminated_propulsion 11
     = Some \<lparr>sname = ''Propulsion'', recipe = recipe_init 1 4 5 25 500, mode = MODE_TERMINATE\<rparr>
   \<and> output (recipe_init 1 4 5 25 500) = resource (event_init 12 4 EVENT_HIGH)
   \<and> (\<exists>w'. manager_run terminated_propulsion = Inr w'
         \<and> system_heap w' 11
             = Some \<lparr>sname = ''Propulsion'', recipe = recipe_init 1 4 5 25 500,
                      mode = MODE_TERMINATE\<rparr>)
   \<and> system_thread 3 11 terminated_propulsion = Inr terminated_propulsion"
proof -
  let ?sys = "\<lparr>sname = ''Propulsion'', recipe = recipe_init 1 4 5 25 500, mode = MODE_TERMINATE\<rparr>"
  have h: "system_heap terminated_propulsion 11 = Some ?sys"
    by (simp add: terminated_propulsion_def)
  have m: "mode ?sys = MODE_TERMINATE" by simp
  note t = terminate_is_absorbing [OF h m]
  have "output (recipe_init 1 4 5 25 500) = resource (event_init 12 4 EVENT_HIGH)"
    by (simp add: recipe_init_def event_init_def)
  moreover have "\<exists>w'. manager_run terminated_propulsion = Inr w' \<and> system_heap w' 11 = Some ?sys"
    using t terminated_propulsion_run by blast
  moreover have "system_thread 3 11 terminated_propulsion = Inr terminated_propulsion"
    using t by (simp add: NULL_def)
  ultimately show ?thesis using h by blast
qed

subsection \<open>One cycle of a system\<close>

lemma emit_Nil: "emit q [] = q"
  by (simp add: emit_def)

lemma emit_append: "emit (emit q es) es' = emit q (es @ es')"
  by (simp add: emit_def)


lemma reached_Inr: "reached (Inr w1) w' \<longleftrightarrow> w' = w1"
  by (auto simp: reached_def)

lemma reached_Inl: "reached (Inl f) w' \<longleftrightarrow> f = Out_of_fuel w'"
  by (auto simp: reached_def)

lemma cycle_stepI:
  assumes "system_heap w' = system_heap w" and "system_array w' = system_array w"
    and "resources w' = resources w" and "simulation_running w' = simulation_running w"
    and "set es \<subseteq> set (cycle_events p sys)" and "event_queue w' = emit (event_queue w) es"
    and "trace w' = trace w @ ts"
    and "heap_inv (resource_heap w) \<Longrightarrow> heap_inv (resource_heap w')"
  shows "cycle_step p sys w w'"
  unfolding cycle_step_def using assms by blast

lemma cycle_step_refl: "cycle_step p sys w w"
  by (rule cycle_stepI [where es = "[]" and ts = "[]"]) (simp_all add: emit_Nil)

lemma cycle_step_trans:
  assumes "cycle_step p sys w w1" and "cycle_step p sys w1 w2"
  shows "cycle_step p sys w w2"
proof -
  from assms(1) obtain es ts where
    es: "set es \<subseteq> set (cycle_events p sys)" "event_queue w1 = emit (event_queue w) es"
    and ts: "trace w1 = trace w @ ts"
    unfolding cycle_step_def by blast
  from assms(2) obtain es' ts' where
    es': "set es' \<subseteq> set (cycle_events p sys)" "event_queue w2 = emit (event_queue w1) es'"
    and ts': "trace w2 = trace w1 @ ts'"
    unfolding cycle_step_def by blast
  show ?thesis
  proof (rule cycle_stepI [where es = "es @ es'" and ts = "ts @ ts'"])
    show "set (es @ es') \<subseteq> set (cycle_events p sys)" using es(1) es'(1) by simp
    show "event_queue w2 = emit (event_queue w) (es @ es')"
      using es(2) es'(2) by (simp add: emit_append)
    show "trace w2 = trace w @ ts @ ts'" using ts ts' by simp
  qed (insert assms, simp_all add: cycle_step_def)
qed

lemma cycle_step_push_event:
  assumes "e \<in> set (cycle_events p sys)"
  shows "cycle_step p sys w (push_event e w)"
  by (rule cycle_stepI [where es = "[e]" and ts = "[]"])
     (insert assms, simp_all add: push_event_def emit_def)

lemma cycle_step_usleep: "cycle_step p sys w (usleep t w)"
  by (rule cycle_stepI [where es = "[]" and ts = "[Usleep t]"])
     (simp_all add: usleep_def emit_Nil)

lemma cycle_step_store:
  assumes "resource_heap w a = Some r" and "resource_inv r \<Longrightarrow> resource_inv r'"
  shows "cycle_step p sys w (w\<lparr>resource_heap := (resource_heap w)(a \<mapsto> r')\<rparr>)"
proof (rule cycle_stepI [where es = "[]" and ts = "[]"])
  assume "heap_inv (resource_heap w)"
  then show "heap_inv (resource_heap (w\<lparr>resource_heap := (resource_heap w)(a \<mapsto> r')\<rparr>))"
    using assms by (auto simp: heap_inv_def)
qed (simp_all add: emit_Nil)

lemma resource_transfer_from_inv:
  assumes "resource_inv r" and "0 \<le>s a"
  shows "resource_inv (fst (resource_transfer_from r a))"
  using assms transfer_from_sint(1,3) [of r a]
  by (auto simp: resource_inv_def word_sle_eq min_def)

lemma resource_transfer_into_inv:
  assumes "resource_inv r" and "0 \<le>s a"
  shows "resource_inv (fst (resource_transfer_into r a))"
  using assms transfer_into_sint(1,3) [of r a]
  by (auto simp: resource_inv_def word_sle_eq min_def)

lemma sless_imp_sle: "(0 :: int32) <s a \<Longrightarrow> 0 \<le>s a"
  by (simp add: word_sless_alt word_sle_eq)

lemma chain_from_inv:
  "heap_inv heap \<Longrightarrow> heap_inv (fst (chain_from k a req heap))"
proof (induction k arbitrary: req heap)
  case 0
  then show ?case by simp
next
  case (Suc k)
  show ?case
  proof (cases "0 <s req \<and> heap a \<noteq> None")
    case False
    with Suc.prems show ?thesis by auto
  next
    case True
    then obtain r where r: "heap a = Some r" by blast
    obtain r' req' where t: "resource_transfer_from r req = (r', req')" by fastforce
    have "resource_inv r" using Suc.prems r by (simp add: heap_inv_def)
    then have "resource_inv r'"
      using resource_transfer_from_inv [of r req] sless_imp_sle True t by simp
    then have h: "heap_inv (heap(a \<mapsto> r'))" using Suc.prems by (auto simp: heap_inv_def)
    have e: "chain_from (Suc k) a req heap = chain_from k a req' (heap(a \<mapsto> r'))"
      using True r t by simp
    show ?thesis unfolding e using h by (rule Suc.IH)
  qed
qed

lemma chain_into_inv:
  "heap_inv heap \<Longrightarrow> heap_inv (fst (chain_into k a req heap))"
proof (induction k arbitrary: req heap)
  case 0
  then show ?case by simp
next
  case (Suc k)
  show ?case
  proof (cases "0 <s req \<and> heap a \<noteq> None")
    case False
    with Suc.prems show ?thesis by auto
  next
    case True
    then obtain r where r: "heap a = Some r" by blast
    obtain r' req' where t: "resource_transfer_into r req = (r', req')" by fastforce
    have "resource_inv r" using Suc.prems r by (simp add: heap_inv_def)
    then have "resource_inv r'"
      using resource_transfer_into_inv [of r req] sless_imp_sle True t by simp
    then have h: "heap_inv (heap(a \<mapsto> r'))" using Suc.prems by (auto simp: heap_inv_def)
    have e: "chain_into (Suc k) a req heap = chain_into k a req' (heap(a \<mapsto> r'))"
      using True r t by simp
    show ?thesis unfolding e using h by (rule Suc.IH)
  qed
qed

lemma chain_into_not_positive: "\<not> 0 <s req \<Longrightarrow> chain_into k a req heap = (heap, req)"
  by (cases k) simp_all

lemma cycle_heaps_inv:
  assumes "cycle_heaps sys heap heap'" and "heap_inv heap"
  shows "heap_inv heap'"
  using assms chain_from_inv chain_into_inv unfolding cycle_heaps_def by blast

lemma cycle_heaps_rtranclp_inv:
  assumes "rtranclp (cycle_heaps sys) heap heap'" and "heap_inv heap"
  shows "heap_inv heap'"
  using assms by (induction rule: rtranclp_induct) (auto intro: cycle_heaps_inv)

lemma system_run_pull_body_fault: "system_run_pull_body p sys a w = Inl f \<Longrightarrow> f = Segfault"
  by (auto simp: system_run_pull_body_def deref_Inl Let_def split: sum.splits prod.splits if_splits)

lemma system_run_push_body_fault: "system_run_push_body p sys a w = Inl f \<Longrightarrow> f = Segfault"
  by (auto simp: system_run_push_body_def deref_Inl Let_def split: sum.splits prod.splits if_splits)

lemma report_recipe_thresholds_fault:
  "report_recipe_thresholds p sys w = Inl f \<Longrightarrow> f = Segfault"
  by (auto simp: report_recipe_thresholds_def deref_Inl Let_def split: sum.splits if_splits)

lemma system_run_pull_body_step:
  assumes "system_run_pull_body p sys a w = Inr (returned, a', w')" and "0 <s a"
  shows "cycle_step p sys w w'"
    and "chain_from (Suc k) (input (recipe sys)) a (resource_heap w)
           = chain_from k (input (recipe sys)) a' (resource_heap w')"
proof -
  from assms(1) obtain r where r: "deref (resource_heap w) (input (recipe sys)) = Inr r"
    by (auto simp: system_run_pull_body_def split: sum.splits)
  then have h: "resource_heap w (input (recipe sys)) = Some r" by (simp add: deref_Inr)
  obtain r' b where t: "resource_transfer_from r a = (r', b)" by fastforce
  define w1 where "w1 = w\<lparr>resource_heap := (resource_heap w)(input (recipe sys) \<mapsto> r')\<rparr>"
  let ?e = "event_init p (input (recipe sys)) EVENT_INSUFFICIENT"
  have "resource_inv r \<Longrightarrow> resource_inv r'"
    using resource_transfer_from_inv [of r a] sless_imp_sle [OF assms(2)] t by simp
  then have s1: "cycle_step p sys w w1" unfolding w1_def using h by (rule cycle_step_store [rotated])
  have w': "a' = b \<and> (w' = w1
      \<or> w' = usleep (c_div (PARAM_SYSTEM_WAIT * 1000) PARAM_SPEED_MODIFIER) (push_event ?e w1))"
    using assms(1) r t by (auto simp: system_run_pull_body_def w1_def Let_def split: if_splits)
  have "?e \<in> set (cycle_events p sys)" by (simp add: cycle_events_def)
  then have "cycle_step p sys w1 (push_event ?e w1)" by (rule cycle_step_push_event)
  then have "cycle_step p sys w1
      (usleep (c_div (PARAM_SYSTEM_WAIT * 1000) PARAM_SPEED_MODIFIER) (push_event ?e w1))"
    using cycle_step_usleep cycle_step_trans by blast
  with w' s1 show "cycle_step p sys w w'" using cycle_step_trans by blast
  from w' have "resource_heap w' = (resource_heap w)(input (recipe sys) \<mapsto> r')"
    by (auto simp: w1_def usleep_def push_event_def)
  with w' h t assms(2)
  show "chain_from (Suc k) (input (recipe sys)) a (resource_heap w)
           = chain_from k (input (recipe sys)) a' (resource_heap w')" by simp
qed

lemma system_run_pull_reach:
  assumes "system_run_pull fuel p sys a w = Inr (returned, a', w')
     \<or> system_run_pull fuel p sys a w = Inl (Out_of_fuel w')"
  shows "cycle_step p sys w w'
     \<and> (\<exists>k. resource_heap w' = fst (chain_from k (input (recipe sys)) a (resource_heap w)))"
  using assms
proof (induction fuel arbitrary: a w)
  case 0
  then have "w' = w" by (auto split: if_splits)
  moreover have "resource_heap w = fst (chain_from 0 (input (recipe sys)) a (resource_heap w))"
    by simp
  ultimately show ?case using cycle_step_refl by blast
next
  case (Suc fuel)
  let ?go = "0 <s a \<and> system_get_mode sys \<noteq> MODE_TERMINATE"
  show ?case
  proof (cases ?go)
    case False
    with Suc.prems have "w' = w" by auto
    moreover have "resource_heap w = fst (chain_from 0 (input (recipe sys)) a (resource_heap w))"
      by simp
    ultimately show ?thesis using cycle_step_refl by blast
  next
    case go: True
    show ?thesis
    proof (cases "system_run_pull_body p sys a w")
      case (Inl f)
      then have "f = Segfault" by (rule system_run_pull_body_fault)
      with Suc.prems go Inl show ?thesis by simp
    next
      case (Inr t)
      obtain ret1 a1 w1 where t: "t = (ret1, a1, w1)" by (cases t)
      with Inr have b: "system_run_pull_body p sys a w = Inr (ret1, a1, w1)" by simp
      from go have pos: "0 <s a" by simp
      note s1 = system_run_pull_body_step(1) [OF b pos]
      note c1 = system_run_pull_body_step(2) [OF b pos]
      show ?thesis
      proof (cases ret1)
        case True
        with Suc.prems b go have "w' = w1" by simp
        moreover have "resource_heap w1
            = fst (chain_from (Suc 0) (input (recipe sys)) a (resource_heap w))"
          unfolding c1 by simp
        ultimately show ?thesis using s1 by blast
      next
        case False
        with Suc.prems b go
        have "system_run_pull fuel p sys a1 w1 = Inr (returned, a', w')
            \<or> system_run_pull fuel p sys a1 w1 = Inl (Out_of_fuel w')" by simp
        from Suc.IH [OF this] obtain k where
          s2: "cycle_step p sys w1 w'"
          and c2: "resource_heap w' = fst (chain_from k (input (recipe sys)) a1 (resource_heap w1))"
          by blast
        from c2 have "resource_heap w'
            = fst (chain_from (Suc k) (input (recipe sys)) a (resource_heap w))"
          unfolding c1 .
        with s1 s2 show ?thesis using cycle_step_trans by blast
      qed
    qed
  qed
qed

lemma system_run_process_step: "cycle_step p sys w (system_run_process p sys w)"
proof -
  let ?e = "event_init p (input (recipe sys)) EVENT_PRODUCED"
  have "?e \<in> set (cycle_events p sys)" by (simp add: cycle_events_def)
  then have "cycle_step p sys (system_simulate_process_time sys w)
      (push_event ?e (system_simulate_process_time sys w))" by (rule cycle_step_push_event)
  moreover have "cycle_step p sys w (system_simulate_process_time sys w)"
    unfolding system_simulate_process_time_def by (rule cycle_step_usleep)
  ultimately show ?thesis
    unfolding system_run_process_def Let_def using cycle_step_trans by blast
qed

lemma system_run_process_facts:
  "trace (system_run_process p sys w)
     = trace w @ [Usleep (c_div (adjusted_processing_time sys * 1000) PARAM_SPEED_MODIFIER)]"
  "event_queue (system_run_process p sys w)
     = event_queue_push (event_queue w) (event_init p (input (recipe sys)) EVENT_PRODUCED)"
  "resource_heap (system_run_process p sys w) = resource_heap w"
  by (simp_all add: system_run_process_def system_simulate_process_time_def usleep_def
      push_event_def Let_def)

lemma system_run_push_body_step:
  assumes "system_run_push_body p sys a w = Inr (returned, a', w')" and "0 <s a"
  shows "cycle_step p sys w w'"
    and "chain_into (Suc k) (output (recipe sys)) a (resource_heap w)
           = chain_into k (output (recipe sys)) a' (resource_heap w')"
proof -
  from assms(1) obtain r where r: "deref (resource_heap w) (output (recipe sys)) = Inr r"
    by (auto simp: system_run_push_body_def split: sum.splits)
  then have h: "resource_heap w (output (recipe sys)) = Some r" by (simp add: deref_Inr)
  obtain r' b where t: "resource_transfer_into r a = (r', b)" by fastforce
  define w1 where "w1 = w\<lparr>resource_heap := (resource_heap w)(output (recipe sys) \<mapsto> r')\<rparr>"
  let ?e = "event_init p (output (recipe sys)) EVENT_CAPACITY"
  have "resource_inv r \<Longrightarrow> resource_inv r'"
    using resource_transfer_into_inv [of r a] sless_imp_sle [OF assms(2)] t by simp
  then have s1: "cycle_step p sys w w1" unfolding w1_def using h by (rule cycle_step_store [rotated])
  have w': "a' = b \<and> (w' = w1
      \<or> w' = usleep (c_div (PARAM_SYSTEM_WAIT * 1000) PARAM_SPEED_MODIFIER) (push_event ?e w1))"
    using assms(1) r t by (auto simp: system_run_push_body_def w1_def Let_def split: if_splits)
  have "?e \<in> set (cycle_events p sys)" by (simp add: cycle_events_def)
  then have "cycle_step p sys w1 (push_event ?e w1)" by (rule cycle_step_push_event)
  then have "cycle_step p sys w1
      (usleep (c_div (PARAM_SYSTEM_WAIT * 1000) PARAM_SPEED_MODIFIER) (push_event ?e w1))"
    using cycle_step_usleep cycle_step_trans by blast
  with w' s1 show "cycle_step p sys w w'" using cycle_step_trans by blast
  from w' have "resource_heap w' = (resource_heap w)(output (recipe sys) \<mapsto> r')"
    by (auto simp: w1_def usleep_def push_event_def)
  with w' h t assms(2)
  show "chain_into (Suc k) (output (recipe sys)) a (resource_heap w)
           = chain_into k (output (recipe sys)) a' (resource_heap w')" by simp
qed

lemma system_run_push_reach:
  assumes "system_run_push fuel p sys a w = Inr (returned, a', w')
     \<or> system_run_push fuel p sys a w = Inl (Out_of_fuel w')"
  shows "cycle_step p sys w w'
     \<and> (\<exists>k. resource_heap w' = fst (chain_into k (output (recipe sys)) a (resource_heap w)))"
  using assms
proof (induction fuel arbitrary: a w)
  case 0
  then have "w' = w" by (auto split: if_splits)
  moreover have "resource_heap w = fst (chain_into 0 (output (recipe sys)) a (resource_heap w))"
    by simp
  ultimately show ?case using cycle_step_refl by blast
next
  case (Suc fuel)
  let ?go = "output (recipe sys) \<noteq> NULL \<and> 0 <s a \<and> system_get_mode sys \<noteq> MODE_TERMINATE"
  show ?case
  proof (cases ?go)
    case False
    with Suc.prems have "w' = w" by auto
    moreover have "resource_heap w = fst (chain_into 0 (output (recipe sys)) a (resource_heap w))"
      by simp
    ultimately show ?thesis using cycle_step_refl by blast
  next
    case go: True
    show ?thesis
    proof (cases "system_run_push_body p sys a w")
      case (Inl f)
      then have "f = Segfault" by (rule system_run_push_body_fault)
      with Suc.prems go Inl show ?thesis by simp
    next
      case (Inr t)
      obtain ret1 a1 w1 where t: "t = (ret1, a1, w1)" by (cases t)
      with Inr have b: "system_run_push_body p sys a w = Inr (ret1, a1, w1)" by simp
      from go have pos: "0 <s a" by simp
      note s1 = system_run_push_body_step(1) [OF b pos]
      note c1 = system_run_push_body_step(2) [OF b pos]
      show ?thesis
      proof (cases ret1)
        case True
        with Suc.prems b go have "w' = w1" by simp
        moreover have "resource_heap w1
            = fst (chain_into (Suc 0) (output (recipe sys)) a (resource_heap w))"
          unfolding c1 by simp
        ultimately show ?thesis using s1 by blast
      next
        case False
        with Suc.prems b go
        have "system_run_push fuel p sys a1 w1 = Inr (returned, a', w')
            \<or> system_run_push fuel p sys a1 w1 = Inl (Out_of_fuel w')" by simp
        from Suc.IH [OF this] obtain k where
          s2: "cycle_step p sys w1 w'"
          and c2: "resource_heap w' = fst (chain_into k (output (recipe sys)) a1 (resource_heap w1))"
          by blast
        from c2 have "resource_heap w'
            = fst (chain_into (Suc k) (output (recipe sys)) a (resource_heap w))"
          unfolding c1 .
        with s1 s2 show ?thesis using cycle_step_trans by blast
      qed
    qed
  qed
qed

lemma report_recipe_thresholds_trace:
  "report_recipe_thresholds p sys w = Inr w' \<Longrightarrow>
   trace w' = trace w \<and> resource_heap w' = resource_heap w"
  by (auto simp: report_recipe_thresholds_def push_event_def Let_def split: if_splits sum.splits)

lemma report_recipe_thresholds_step:
  assumes "report_recipe_thresholds p sys w = Inr w'"
  shows "cycle_step p sys w w'"
proof -
  let ?low = "event_init p (input (recipe sys)) EVENT_LOW"
  let ?high = "event_init p (input (recipe sys)) EVENT_HIGH"
  have "w' = w \<or> w' = push_event ?low w \<or> w' = push_event ?high w"
    using assms by (auto simp: report_recipe_thresholds_def Let_def split: if_splits sum.splits)
  moreover have "?low \<in> set (cycle_events p sys)" "?high \<in> set (cycle_events p sys)"
    by (simp_all add: cycle_events_def)
  ultimately show ?thesis using cycle_step_refl cycle_step_push_event by metis
qed

text \<open>
  What follows the input loop and the processing step: the output loop for the amount held,
  then the report of the thresholds.
\<close>

lemma system_run_tail_reach:
  assumes "reached (case system_run_push fuel p sys l w2 of
                      Inl f \<Rightarrow> Inl f
                    | Inr (returned, l', w3) \<Rightarrow>
                        if returned then Inr w3 else report_recipe_thresholds p sys w3) w'"
  shows "cycle_step p sys w2 w'
     \<and> (\<exists>j. resource_heap w' = fst (chain_into j (output (recipe sys)) l (resource_heap w2)))"
proof (cases "system_run_push fuel p sys l w2")
  case (Inl f)
  with assms have "system_run_push fuel p sys l w2 = Inl (Out_of_fuel w')"
    by (simp add: reached_Inl)
  then show ?thesis using system_run_push_reach by blast
next
  case (Inr t)
  obtain ret3 l3 w3 where t: "t = (ret3, l3, w3)" by (cases t)
  with Inr have push: "system_run_push fuel p sys l w2 = Inr (ret3, l3, w3)" by simp
  from system_run_push_reach [OF disjI1, OF push] obtain j where
    s3: "cycle_step p sys w2 w3"
    and c3: "resource_heap w3 = fst (chain_into j (output (recipe sys)) l (resource_heap w2))"
    by blast
  have "cycle_step p sys w3 w' \<and> resource_heap w' = resource_heap w3"
  proof (cases ret3)
    case True
    with assms push have "w' = w3" by (simp add: reached_Inr)
    then show ?thesis using cycle_step_refl by simp
  next
    case False
    with assms push have r: "reached (report_recipe_thresholds p sys w3) w'" by simp
    have "report_recipe_thresholds p sys w3 = Inr w'"
    proof (cases "report_recipe_thresholds p sys w3")
      case (Inl f)
      then have "f = Segfault" by (rule report_recipe_thresholds_fault)
      with r Inl show ?thesis by (simp add: reached_Inl)
    next
      case (Inr w4)
      with r show ?thesis by (simp add: reached_Inr)
    qed
    then show ?thesis
      using report_recipe_thresholds_step report_recipe_thresholds_trace by blast
  qed
  with s3 c3 show ?thesis using cycle_step_trans by metis
qed

lemma system_run_after_pull:
  assumes "deref (system_heap w) p = Inr sys"
    and "system_run_pull fuel p sys (input_amount (recipe sys)) w = Inr (False, a1, w1)"
  shows "system_run fuel p w =
     (case system_run_push fuel p sys (if a1 = 0 then output_amount (recipe sys) else 0)
             (if a1 = 0 then system_run_process p sys w1 else w1) of
        Inl f \<Rightarrow> Inl f
      | Inr (returned, l', w3) \<Rightarrow>
          if returned then Inr w3 else report_recipe_thresholds p sys w3)"
  using assms by (simp add: system_run_def)

lemma system_run_reach:
  assumes "reached (system_run fuel p w) w'" and "deref (system_heap w) p = Inr sys"
  shows "cycle_step p sys w w'"
    and "cycle_heaps sys (resource_heap w) (resource_heap w')"
proof -
  let ?pull = "system_run_pull fuel p sys (input_amount (recipe sys)) w"
  have "cycle_step p sys w w' \<and> cycle_heaps sys (resource_heap w) (resource_heap w')"
  proof (cases ?pull)
    case (Inl f)
    with assms have "?pull = Inl (Out_of_fuel w')" by (simp add: system_run_def reached_Inl)
    from system_run_pull_reach [OF disjI2, OF this] obtain k where
      s: "cycle_step p sys w w'"
      and c: "resource_heap w'
          = fst (chain_from k (input (recipe sys)) (input_amount (recipe sys)) (resource_heap w))"
      by blast
    from c have "resource_heap w'
          = fst (chain_into 0 (output (recipe sys)) (output_amount (recipe sys))
              (fst (chain_from k (input (recipe sys)) (input_amount (recipe sys))
                      (resource_heap w))))" by simp
    then have "cycle_heaps sys (resource_heap w) (resource_heap w')"
      unfolding cycle_heaps_def by blast
    with s show ?thesis by simp
  next
    case (Inr t)
    obtain ret1 a1 w1 where t: "t = (ret1, a1, w1)" by (cases t)
    with Inr have pull: "?pull = Inr (ret1, a1, w1)" by simp
    from system_run_pull_reach [OF disjI1, OF pull] obtain k where
      s1: "cycle_step p sys w w1"
      and c1: "resource_heap w1
          = fst (chain_from k (input (recipe sys)) (input_amount (recipe sys)) (resource_heap w))"
      by blast
    show ?thesis
    proof (cases ret1)
      case True
      with assms pull have "w' = w1" by (simp add: system_run_def reached_Inr)
      moreover from c1 have "resource_heap w1
          = fst (chain_into 0 (output (recipe sys)) (output_amount (recipe sys))
              (fst (chain_from k (input (recipe sys)) (input_amount (recipe sys))
                      (resource_heap w))))" by simp
      then have "cycle_heaps sys (resource_heap w) (resource_heap w1)"
        unfolding cycle_heaps_def by blast
      ultimately show ?thesis using s1 by simp
    next
      case False
      define w2 where "w2 = (if a1 = 0 then system_run_process p sys w1 else w1)"
      define l where "l = (if a1 = 0 then output_amount (recipe sys) else 0)"
      have s2: "cycle_step p sys w1 w2"
        unfolding w2_def using system_run_process_step cycle_step_refl by simp
      have h2: "resource_heap w2 = resource_heap w1"
        unfolding w2_def by (simp add: system_run_process_facts)
      from False pull have pull': "?pull = Inr (False, a1, w1)" by simp
      from assms(1) have "reached (case system_run_push fuel p sys l w2 of
                      Inl f \<Rightarrow> Inl f
                    | Inr (returned, l', w3) \<Rightarrow>
                        if returned then Inr w3 else report_recipe_thresholds p sys w3) w'"
        unfolding system_run_after_pull [OF assms(2) pull'] w2_def l_def .
      from system_run_tail_reach [OF this] obtain j where
        s3: "cycle_step p sys w2 w'"
        and c3: "resource_heap w' = fst (chain_into j (output (recipe sys)) l (resource_heap w2))"
        by blast
      have "\<exists>j. resource_heap w'
          = fst (chain_into j (output (recipe sys)) (output_amount (recipe sys)) (resource_heap w1))"
      proof (cases "a1 = 0")
        case True
        with c3 h2 show ?thesis by (auto simp: l_def)
      next
        case False
        then have "l = 0" by (simp add: l_def)
        then have "chain_into j (output (recipe sys)) l (resource_heap w2) = (resource_heap w2, l)"
          by (simp add: chain_into_not_positive word_sless_alt)
        with c3 h2 have "resource_heap w'
          = fst (chain_into 0 (output (recipe sys)) (output_amount (recipe sys)) (resource_heap w1))"
          by simp
        then show ?thesis by blast
      qed
      then have "cycle_heaps sys (resource_heap w) (resource_heap w')"
        unfolding cycle_heaps_def c1 by blast
      with s1 s2 s3 show ?thesis using cycle_step_trans by blast
    qed
  qed
  then show "cycle_step p sys w w'" and "cycle_heaps sys (resource_heap w) (resource_heap w')"
    by simp_all
qed

lemma crew_cycle:
  "summary (system_run 1 13 load_data)
     = Some (True, [Usleep 200000], [event_init 13 2 EVENT_PRODUCED],
            [Some \<lparr>name = ''Fuel'', amount = 1000, max_capacity = 1000\<rparr>,
             Some \<lparr>name = ''Oxygen'', amount = 15, max_capacity = 50\<rparr>,
             Some \<lparr>name = ''Energy'', amount = 30, max_capacity = 50\<rparr>,
             Some \<lparr>name = ''Distance'', amount = 0, max_capacity = 1000\<rparr>])"
  by (simp add: summary_def system_run_defs constants_defs load_data_def event_queue_init_def)

text \<open>
  Propulsion with Distance at 990 of 1000: the cycle takes 5 of Fuel, processes, reports
  Produced, adds 10 of its 25 to Distance and then waits for room, for as long as it runs.
\<close>

lemma near_destination_cycle:
  "summary (system_run 2 11 near_destination)
     = Some (False, [Usleep 500000, Usleep 500000, Usleep 500000],
            [event_init 11 4 EVENT_CAPACITY, event_init 11 4 EVENT_CAPACITY,
             event_init 11 1 EVENT_PRODUCED],
            [Some \<lparr>name = ''Fuel'', amount = 995, max_capacity = 1000\<rparr>,
             Some \<lparr>name = ''Oxygen'', amount = 20, max_capacity = 50\<rparr>,
             Some \<lparr>name = ''Energy'', amount = 30, max_capacity = 50\<rparr>,
             Some \<lparr>name = ''Distance'', amount = 1000, max_capacity = 1000\<rparr>])"
proof -
  have "summary (system_run (Suc (Suc 0)) 11 near_destination)
     = Some (False, [Usleep 500000, Usleep 500000, Usleep 500000],
            [event_init 11 4 EVENT_CAPACITY, event_init 11 4 EVENT_CAPACITY,
             event_init 11 1 EVENT_PRODUCED],
            [Some \<lparr>name = ''Fuel'', amount = 995, max_capacity = 1000\<rparr>,
             Some \<lparr>name = ''Oxygen'', amount = 20, max_capacity = 50\<rparr>,
             Some \<lparr>name = ''Energy'', amount = 30, max_capacity = 50\<rparr>,
             Some \<lparr>name = ''Distance'', amount = 1000, max_capacity = 1000\<rparr>])"
    by (simp add: summary_def system_run_defs constants_defs near_destination_def load_data_def
        event_queue_init_def)
  then show ?thesis by (simp only: numeral_2_eq_2)
qed

lemma summary_returned:
  assumes "summary result = Some (True, ts, q, rs)"
  obtains w' where "result = Inr w'" and "trace w' = ts" and "event_queue w' = q"
    and "map (resource_heap w') (resources w') = rs"
  using assms by (auto simp: summary_def split: sum.splits fault.splits)

lemma summary_out_of_fuel:
  assumes "summary result = Some (False, ts, q, rs)"
  obtains w' where "result = Inl (Out_of_fuel w')" and "trace w' = ts" and "event_queue w' = q"
    and "map (resource_heap w') (resources w') = rs"
  using assms by (auto simp: summary_def split: sum.splits fault.splits)

lemma manager_run_update_fault:
  "manager_run_update m res ps heap = Inl f \<Longrightarrow> f = Segfault"
  by (induction ps arbitrary: heap) (auto simp: deref_Inl split: sum.splits if_splits)

lemma manager_run_body_fault: "manager_run_body event w = Inl f \<Longrightarrow> f = Segfault"
  by (auto simp: manager_run_body_def display_event_def deref_Inl Let_def
      dest: manager_run_update_fault split: sum.splits prod.splits if_splits)

lemma manager_run_body_resource_heap:
  assumes "manager_run_body event w = Inr w'"
  shows "resource_heap w' = resource_heap w"
  using manager_run_body_cases [OF assms]
proof (elim disjE exE conjE)
  fix line assume "w' = printf line w"
  then show ?thesis by (simp add: printf_def)
next
  fix res m w2 w3 heap'
  assume "resource_heap w2 = resource_heap w"
    and dec: "manager_run_decide event res w2 = (m, w3)"
    and w': "w' = usleep (c_div (PARAM_MANAGER_WAIT * 1000) PARAM_SPEED_MODIFIER)
                    (w3\<lparr>system_heap := heap'\<rparr>)"
  then show ?thesis using manager_run_decide_eq [OF dec] by (simp add: usleep_def)
qed

lemma manager_run_loop_reached:
  "reached (manager_run_loop w) w' \<Longrightarrow>
   manager_run_loop w = Inr w' \<and> resource_heap w' = resource_heap w"
proof (induction w rule: manager_run_loop.induct)
  case (1 w)
  show ?case
  proof (cases "simulation_running w = 0")
    case True
    with "1.prems" show ?thesis by (simp add: manager_run_loop_stopped reached_Inr)
  next
    case False
    show ?thesis
    proof (cases "event_queue w")
      case Nil
      with "1.prems" show ?thesis by (simp add: manager_run_loop_empty reached_Inr)
    next
      case (Cons event queue')
      note unfold = manager_run_loop_pop [OF False Cons]
      show ?thesis
      proof (cases "manager_run_body event (w\<lparr>event_queue := queue'\<rparr>)")
        case (Inl f)
        then have "f = Segfault" by (rule manager_run_body_fault)
        with "1.prems" unfold Inl show ?thesis by (simp add: reached_Inl)
      next
        case (Inr w1)
        with "1.prems" unfold have l: "reached (manager_run_loop w1) w'" by simp
        have "resource_heap w1 = resource_heap w"
          using manager_run_body_resource_heap [OF Inr] by simp
        moreover have pop: "event_queue_pop (event_queue w) = (1, Some event, queue')"
          by (simp add: event_queue_pop_def Cons)
        ultimately show ?thesis
          using "1.IH" [OF False pop [symmetric] refl, of True "Some event" event w1] Inr l unfold
          by simp
      qed
    qed
  qed
qed

lemma manager_run_reached:
  "reached (manager_run w) w' \<Longrightarrow> manager_run w = Inr w' \<and> resource_heap w' = resource_heap w"
  using manager_run_loop_reached [of "display_simulation_state w" w']
  by (simp add: manager_run_def display_simulation_state_def)

lemma manager_thread_loop_reached:
  "reached (manager_thread_loop fuel w) w' \<Longrightarrow> resource_heap w' = resource_heap w"
proof (induction fuel arbitrary: w)
  case 0
  then show ?case by (auto simp: reached_def split: if_splits)
next
  case (Suc fuel)
  show ?case
  proof (cases "simulation_running w \<noteq> 0")
    case False
    with Suc.prems show ?thesis by (simp add: reached_Inr)
  next
    case True
    show ?thesis
    proof (cases "manager_run w")
      case (Inl f)
      with Suc.prems True have "reached (manager_run w) w'" by (simp add: reached_def)
      from manager_run_reached [OF this] Inl show ?thesis by simp
    next
      case (Inr w1)
      then have "reached (manager_run w) w1" by (simp add: reached_Inr)
      then have h: "resource_heap w1 = resource_heap w" using manager_run_reached by blast
      from Suc.prems True Inr have "reached (manager_thread_loop fuel
          (usleep (c_div (PARAM_MANAGER_WAIT * 1000) PARAM_SPEED_MODIFIER) w1)) w'" by simp
      from Suc.IH [OF this] h show ?thesis by (simp add: usleep_def)
    qed
  qed
qed

lemma manager_thread_reached:
  assumes "reached (manager_thread fuel w) w'"
  shows "resource_heap w' = resource_heap w"
proof -
  let ?w0 = "printf (''Manager thread started'' @ [CHR 0x0A]) w"
  show ?thesis
  proof (cases "manager_thread_loop fuel ?w0")
    case (Inl f)
    with assms have "reached (manager_thread_loop fuel ?w0) w'"
      by (simp add: manager_thread_def reached_def)
    from manager_thread_loop_reached [OF this] show ?thesis by (simp add: printf_def)
  next
    case (Inr w1)
    then have "reached (manager_thread_loop fuel ?w0) w1" by (simp add: reached_Inr)
    from manager_thread_loop_reached [OF this] have "resource_heap w1 = resource_heap w"
      by (simp add: printf_def)
    moreover from assms Inr have "w' = printf (''Manager thread ended'' @ [CHR 0x0A]) w1"
      by (simp add: manager_thread_def reached_Inr)
    ultimately show ?thesis by (simp add: printf_def)
  qed
qed

lemma system_thread_loop_reached:
  assumes "reached (system_thread_loop fuel p w) w'" and "deref (system_heap w) p = Inr sys"
  shows "rtranclp (cycle_heaps sys) (resource_heap w) (resource_heap w')"
  using assms
proof (induction fuel arbitrary: w)
  case 0
  then have "w' = w" by (auto simp: reached_def split: if_splits)
  then show ?case by simp
next
  case (Suc fuel)
  show ?case
  proof (cases "system_get_mode sys \<noteq> MODE_TERMINATE")
    case False
    with Suc.prems have "w' = w" by (simp add: reached_Inr)
    then show ?thesis by simp
  next
    case True
    show ?thesis
    proof (cases "system_run (Suc fuel) p w")
      case (Inl f)
      with Suc.prems True have "reached (system_run (Suc fuel) p w) w'"
        by (simp add: reached_def)
      from system_run_reach(2) [OF this Suc.prems(2)] show ?thesis by simp
    next
      case (Inr w1)
      let ?w1 = "usleep (c_div (PARAM_SYSTEM_WAIT * 1000) PARAM_SPEED_MODIFIER) w1"
      from Inr have r: "reached (system_run (Suc fuel) p w) w1" by (simp add: reached_Inr)
      note s = system_run_reach [OF r Suc.prems(2)]
      from s(1) Suc.prems(2) have d: "deref (system_heap ?w1) p = Inr sys"
        by (simp add: cycle_step_def usleep_def)
      from Suc.prems True Inr have "reached (system_thread_loop fuel p ?w1) w'" by simp
      from Suc.IH [OF this d]
      have "rtranclp (cycle_heaps sys) (resource_heap w1) (resource_heap w')"
        by (simp add: usleep_def)
      with s(2) show ?thesis by simp
    qed
  qed
qed

lemma system_thread_reached:
  assumes "reached (system_thread fuel p w) w'" and "deref (system_heap w) p = Inr sys"
  shows "rtranclp (cycle_heaps sys) (resource_heap w) (resource_heap w')"
proof -
  from assms(2) have "p \<noteq> NULL" by (simp add: deref_Inr)
  with assms(1) have "reached (system_thread_loop fuel p w) w'" by (simp add: system_thread_def)
  then show ?thesis using assms(2) by (rule system_thread_loop_reached)
qed

lemma load_data_heap_inv: "heap_inv (resource_heap load_data)"
  by (simp add: heap_inv_def load_data_def resource_inv_def word_sle_eq)

lemma near_destination_heap_inv: "heap_inv (resource_heap near_destination)"
  by (simp add: heap_inv_def near_destination_def load_data_def resource_inv_def word_sle_eq)

lemma manager_thread_idle:
  "manager_thread 1 load_data
     = Inl (Out_of_fuel (load_data\<lparr>trace := [Printf (''Manager thread started'' @ [CHR 0x0A]),
                                              Display_simulation_state, Usleep 10000]\<rparr>))"
  by (simp add: manager_thread_def manager_run_def manager_run_loop_empty
      display_simulation_state_def printf_def usleep_def load_data_def event_queue_init_def
      c_div_def constants_defs)

lemma crew_thread:
  "summary (system_thread 1 13 load_data)
     = Some (False, [Usleep 200000, Usleep 500000], [event_init 13 2 EVENT_PRODUCED],
            [Some \<lparr>name = ''Fuel'', amount = 1000, max_capacity = 1000\<rparr>,
             Some \<lparr>name = ''Oxygen'', amount = 15, max_capacity = 50\<rparr>,
             Some \<lparr>name = ''Energy'', amount = 30, max_capacity = 50\<rparr>,
             Some \<lparr>name = ''Distance'', amount = 0, max_capacity = 1000\<rparr>])"
  by (simp add: summary_def system_thread_def system_run_defs constants_defs load_data_def
      event_queue_init_def)

text \<open>
  C5. A transfer into or from a resource that satisfies \<open>0 \<le> amount \<le> max_capacity\<close>, for
  a requested amount that is not negative, leaves a resource that satisfies it. Nothing
  else changes an amount. \<open>manager_run\<close> and \<open>manager_thread\<close> leave the resource heap as
  it was, in every state they return or run out of fuel in. The resource heap that a call
  of \<open>system_run\<close> reaches, returned or not, is the one it was given after some calls of
  \<open>resource_transfer_from\<close> on the recipe's input and some calls of
  \<open>resource_transfer_into\<close> on the recipe's output, each for a positive amount; the heap
  that \<open>system_thread\<close> reaches is the one after some such cycles. So both keep the
  invariant of every resource of the heap.
\<close>

theorem resource_invariant_preserved:
  assumes "resource_inv r" and "0 \<le>s requested"
  shows "resource_inv (fst (resource_transfer_into r requested))
     \<and> resource_inv (fst (resource_transfer_from r requested))
     \<and> (\<forall>w w'. reached (manager_run w) w' \<longrightarrow> resource_heap w' = resource_heap w)
     \<and> (\<forall>fuel w w'. reached (manager_thread fuel w) w' \<longrightarrow> resource_heap w' = resource_heap w)
     \<and> (\<forall>fuel p w sys w'.
           deref (system_heap w) p = Inr sys \<and> reached (system_run fuel p w) w' \<longrightarrow>
             cycle_heaps sys (resource_heap w) (resource_heap w')
             \<and> (heap_inv (resource_heap w) \<longrightarrow> heap_inv (resource_heap w')))
     \<and> (\<forall>fuel p w sys w'.
           deref (system_heap w) p = Inr sys \<and> reached (system_thread fuel p w) w' \<longrightarrow>
             rtranclp (cycle_heaps sys) (resource_heap w) (resource_heap w')
             \<and> (heap_inv (resource_heap w) \<longrightarrow> heap_inv (resource_heap w')))"
proof (intro conjI allI impI)
  show "resource_inv (fst (resource_transfer_into r requested))"
    using assms by (rule resource_transfer_into_inv)
  show "resource_inv (fst (resource_transfer_from r requested))"
    using assms by (rule resource_transfer_from_inv)
next
  fix w w' assume "reached (manager_run w) w'"
  then show "resource_heap w' = resource_heap w" using manager_run_reached by blast
next
  fix fuel w w' assume "reached (manager_thread fuel w) w'"
  then show "resource_heap w' = resource_heap w" by (rule manager_thread_reached)
next
  fix fuel p w sys w'
  assume a: "deref (system_heap w) p = Inr sys \<and> reached (system_run fuel p w) w'"
  then show c: "cycle_heaps sys (resource_heap w) (resource_heap w')"
    using system_run_reach(2) by blast
  assume "heap_inv (resource_heap w)"
  with c show "heap_inv (resource_heap w')" by (rule cycle_heaps_inv)
next
  fix fuel p w sys w'
  assume a: "deref (system_heap w) p = Inr sys \<and> reached (system_thread fuel p w) w'"
  then show c: "rtranclp (cycle_heaps sys) (resource_heap w) (resource_heap w')"
    using system_thread_reached by blast
  assume "heap_inv (resource_heap w)"
  with c show "heap_inv (resource_heap w')" by (rule cycle_heaps_rtranclp_inv)
qed

theorem resource_invariant_preserved_witness:
  "resource_inv \<lparr>name = ''Oxygen'', amount = 20, max_capacity = 50\<rparr>
   \<and> amount (fst (resource_transfer_into \<lparr>name = ''Oxygen'', amount = 20, max_capacity = 50\<rparr> 40)) = 50
   \<and> resource_inv (fst (resource_transfer_into \<lparr>name = ''Oxygen'', amount = 20, max_capacity = 50\<rparr> 40))
   \<and> amount (fst (resource_transfer_from \<lparr>name = ''Oxygen'', amount = 20, max_capacity = 50\<rparr> 40)) = 0
   \<and> resource_inv (fst (resource_transfer_from \<lparr>name = ''Oxygen'', amount = 20, max_capacity = 50\<rparr> 40))
   \<and> (\<exists>w'. manager_run terminated_propulsion = Inr w'
          \<and> resource_heap w' = resource_heap terminated_propulsion)
   \<and> (\<exists>w'. manager_thread 1 load_data = Inl (Out_of_fuel w')
          \<and> resource_heap w' = resource_heap load_data)
   \<and> (\<exists>w'. system_run 2 11 near_destination = Inl (Out_of_fuel w')
          \<and> cycle_heaps \<lparr>sname = ''Propulsion'', recipe = recipe_init 1 4 5 25 500,
                          mode = MODE_STANDARD\<rparr>
               (resource_heap near_destination) (resource_heap w')
          \<and> heap_inv (resource_heap w')
          \<and> map (resource_heap w') [1, 2, 3, 4]
             = [Some \<lparr>name = ''Fuel'', amount = 995, max_capacity = 1000\<rparr>,
                Some \<lparr>name = ''Oxygen'', amount = 20, max_capacity = 50\<rparr>,
                Some \<lparr>name = ''Energy'', amount = 30, max_capacity = 50\<rparr>,
                Some \<lparr>name = ''Distance'', amount = 1000, max_capacity = 1000\<rparr>])
   \<and> (\<exists>w'. system_run 1 13 load_data = Inr w'
          \<and> heap_inv (resource_heap w')
          \<and> map (resource_heap w') [1, 2, 3, 4]
             = [Some \<lparr>name = ''Fuel'', amount = 1000, max_capacity = 1000\<rparr>,
                Some \<lparr>name = ''Oxygen'', amount = 15, max_capacity = 50\<rparr>,
                Some \<lparr>name = ''Energy'', amount = 30, max_capacity = 50\<rparr>,
                Some \<lparr>name = ''Distance'', amount = 0, max_capacity = 1000\<rparr>])
   \<and> (\<exists>w'. system_thread 1 13 load_data = Inl (Out_of_fuel w')
          \<and> heap_inv (resource_heap w')
          \<and> map (resource_heap w') [1, 2, 3, 4]
             = [Some \<lparr>name = ''Fuel'', amount = 1000, max_capacity = 1000\<rparr>,
                Some \<lparr>name = ''Oxygen'', amount = 15, max_capacity = 50\<rparr>,
                Some \<lparr>name = ''Energy'', amount = 30, max_capacity = 50\<rparr>,
                Some \<lparr>name = ''Distance'', amount = 0, max_capacity = 1000\<rparr>])"
proof -
  let ?oxy = "\<lparr>name = ''Oxygen'', amount = 20, max_capacity = 50\<rparr>"
  let ?propulsion = "\<lparr>sname = ''Propulsion'', recipe = recipe_init 1 4 5 25 500,
                          mode = MODE_STANDARD\<rparr>"
  let ?crew = "\<lparr>sname = ''Crew'', recipe = recipe_init 2 NULL 5 0 200, mode = MODE_STANDARD\<rparr>"
  have inv: "resource_inv ?oxy" by (simp add: resource_inv_def word_sle_eq)
  have req: "(0 :: int32) \<le>s 40" by (simp add: word_sle_eq)
  note t = resource_invariant_preserved [OF inv req]
  note t_manager_run = t [THEN conjunct2, THEN conjunct2, THEN conjunct1, rule_format]
  note t_manager_thread =
    t [THEN conjunct2, THEN conjunct2, THEN conjunct2, THEN conjunct1, rule_format]
  note t_system_run =
    t [THEN conjunct2, THEN conjunct2, THEN conjunct2, THEN conjunct2, THEN conjunct1,
       rule_format]
  note t_system_thread =
    t [THEN conjunct2, THEN conjunct2, THEN conjunct2, THEN conjunct2, THEN conjunct2,
       rule_format]
  have into: "amount (fst (resource_transfer_into ?oxy 40)) = 50"
    by (simp add: resource_transfer_into_def Let_def word_sle_eq)
  have "from": "amount (fst (resource_transfer_from ?oxy 40)) = 0"
    by (simp add: resource_transfer_from_def Let_def word_sless_alt)
  have i1: "resource_inv (fst (resource_transfer_into ?oxy 40))" by (rule t [THEN conjunct1])
  have i2: "resource_inv (fst (resource_transfer_from ?oxy 40))"
    by (rule t [THEN conjunct2, THEN conjunct1])
  have mgr: "\<exists>w'. manager_run terminated_propulsion = Inr w'
          \<and> resource_heap w' = resource_heap terminated_propulsion"
  proof -
    have "\<exists>w'. manager_run terminated_propulsion = Inr w'"
      by (rule exI, rule terminated_propulsion_run)
    then obtain w' where r: "manager_run terminated_propulsion = Inr w'" ..
    then have "reached (manager_run terminated_propulsion) w'" by (simp add: reached_Inr)
    then have "resource_heap w' = resource_heap terminated_propulsion" by (rule t_manager_run)
    with r show ?thesis by (intro exI conjI)
  qed
  have mth: "\<exists>w'. manager_thread 1 load_data = Inl (Out_of_fuel w')
          \<and> resource_heap w' = resource_heap load_data"
  proof -
    have "\<exists>w'. manager_thread 1 load_data = Inl (Out_of_fuel w')"
      by (rule exI, rule manager_thread_idle)
    then obtain w' where r: "manager_thread 1 load_data = Inl (Out_of_fuel w')" ..
    then have "reached (manager_thread 1 load_data) w'" by (simp add: reached_Inl)
    then have "resource_heap w' = resource_heap load_data" by (rule t_manager_thread)
    with r show ?thesis by (intro exI conjI)
  qed
  have run: "\<exists>w'. system_run 2 11 near_destination = Inl (Out_of_fuel w')
          \<and> cycle_heaps ?propulsion (resource_heap near_destination) (resource_heap w')
          \<and> heap_inv (resource_heap w')
          \<and> map (resource_heap w') [1, 2, 3, 4]
             = [Some \<lparr>name = ''Fuel'', amount = 995, max_capacity = 1000\<rparr>,
                Some \<lparr>name = ''Oxygen'', amount = 20, max_capacity = 50\<rparr>,
                Some \<lparr>name = ''Energy'', amount = 30, max_capacity = 50\<rparr>,
                Some \<lparr>name = ''Distance'', amount = 1000, max_capacity = 1000\<rparr>]"
  proof -
    from near_destination_cycle obtain w' where
      r: "system_run 2 11 near_destination = Inl (Out_of_fuel w')"
      and "trace w' = [Usleep 500000, Usleep 500000, Usleep 500000]"
      and "event_queue w' = [event_init 11 4 EVENT_CAPACITY, event_init 11 4 EVENT_CAPACITY,
             event_init 11 1 EVENT_PRODUCED]"
      and s: "map (resource_heap w') (resources w')
             = [Some \<lparr>name = ''Fuel'', amount = 995, max_capacity = 1000\<rparr>,
                Some \<lparr>name = ''Oxygen'', amount = 20, max_capacity = 50\<rparr>,
                Some \<lparr>name = ''Energy'', amount = 30, max_capacity = 50\<rparr>,
                Some \<lparr>name = ''Distance'', amount = 1000, max_capacity = 1000\<rparr>]"
      by (rule summary_out_of_fuel)
    have d: "deref (system_heap near_destination) 11 = Inr ?propulsion"
      by (simp add: deref_def NULL_def near_destination_def load_data_systems)
    from r have re: "reached (system_run 2 11 near_destination) w'" by (simp add: reached_Inl)
    from system_run_reach(1) [OF re d] have "resources w' = [1, 2, 3, 4]"
      by (simp add: cycle_step_def near_destination_def load_data_def)
    with s have h: "map (resource_heap w') [1, 2, 3, 4]
             = [Some \<lparr>name = ''Fuel'', amount = 995, max_capacity = 1000\<rparr>,
                Some \<lparr>name = ''Oxygen'', amount = 20, max_capacity = 50\<rparr>,
                Some \<lparr>name = ''Energy'', amount = 30, max_capacity = 50\<rparr>,
                Some \<lparr>name = ''Distance'', amount = 1000, max_capacity = 1000\<rparr>]"
      by simp
    note both = t_system_run [OF conjI, OF d re]
    have c: "cycle_heaps ?propulsion (resource_heap near_destination) (resource_heap w')"
      by (rule both [THEN conjunct1])
    have hi: "heap_inv (resource_heap w')"
      by (rule both [THEN conjunct2, rule_format]) (rule near_destination_heap_inv)
    show ?thesis by (intro exI conjI) (fact r, fact c, fact hi, fact h)
  qed
  have ret: "\<exists>w'. system_run 1 13 load_data = Inr w'
          \<and> heap_inv (resource_heap w')
          \<and> map (resource_heap w') [1, 2, 3, 4]
             = [Some \<lparr>name = ''Fuel'', amount = 1000, max_capacity = 1000\<rparr>,
                Some \<lparr>name = ''Oxygen'', amount = 15, max_capacity = 50\<rparr>,
                Some \<lparr>name = ''Energy'', amount = 30, max_capacity = 50\<rparr>,
                Some \<lparr>name = ''Distance'', amount = 0, max_capacity = 1000\<rparr>]"
  proof -
    from crew_cycle obtain w' where
      r: "system_run 1 13 load_data = Inr w'"
      and "trace w' = [Usleep 200000]"
      and "event_queue w' = [event_init 13 2 EVENT_PRODUCED]"
      and s: "map (resource_heap w') (resources w')
             = [Some \<lparr>name = ''Fuel'', amount = 1000, max_capacity = 1000\<rparr>,
                Some \<lparr>name = ''Oxygen'', amount = 15, max_capacity = 50\<rparr>,
                Some \<lparr>name = ''Energy'', amount = 30, max_capacity = 50\<rparr>,
                Some \<lparr>name = ''Distance'', amount = 0, max_capacity = 1000\<rparr>]"
      by (rule summary_returned)
    have d: "deref (system_heap load_data) 13 = Inr ?crew"
      by (simp add: deref_def NULL_def load_data_systems)
    from r have re: "reached (system_run 1 13 load_data) w'" by (simp add: reached_Inr)
    from system_run_reach(1) [OF re d] have "resources w' = [1, 2, 3, 4]"
      by (simp add: cycle_step_def load_data_def)
    with s have h: "map (resource_heap w') [1, 2, 3, 4]
             = [Some \<lparr>name = ''Fuel'', amount = 1000, max_capacity = 1000\<rparr>,
                Some \<lparr>name = ''Oxygen'', amount = 15, max_capacity = 50\<rparr>,
                Some \<lparr>name = ''Energy'', amount = 30, max_capacity = 50\<rparr>,
                Some \<lparr>name = ''Distance'', amount = 0, max_capacity = 1000\<rparr>]"
      by simp
    have hi: "heap_inv (resource_heap w')"
      by (rule t_system_run [OF conjI, OF d re, THEN conjunct2, rule_format])
         (rule load_data_heap_inv)
    show ?thesis by (intro exI conjI) (fact r, fact hi, fact h)
  qed
  have thr: "\<exists>w'. system_thread 1 13 load_data = Inl (Out_of_fuel w')
          \<and> heap_inv (resource_heap w')
          \<and> map (resource_heap w') [1, 2, 3, 4]
             = [Some \<lparr>name = ''Fuel'', amount = 1000, max_capacity = 1000\<rparr>,
                Some \<lparr>name = ''Oxygen'', amount = 15, max_capacity = 50\<rparr>,
                Some \<lparr>name = ''Energy'', amount = 30, max_capacity = 50\<rparr>,
                Some \<lparr>name = ''Distance'', amount = 0, max_capacity = 1000\<rparr>]"
  proof -
    from crew_thread obtain w' where
      r: "system_thread 1 13 load_data = Inl (Out_of_fuel w')"
      and "trace w' = [Usleep 200000, Usleep 500000]"
      and "event_queue w' = [event_init 13 2 EVENT_PRODUCED]"
      and s: "map (resource_heap w') (resources w')
             = [Some \<lparr>name = ''Fuel'', amount = 1000, max_capacity = 1000\<rparr>,
                Some \<lparr>name = ''Oxygen'', amount = 15, max_capacity = 50\<rparr>,
                Some \<lparr>name = ''Energy'', amount = 30, max_capacity = 50\<rparr>,
                Some \<lparr>name = ''Distance'', amount = 0, max_capacity = 1000\<rparr>]"
      by (rule summary_out_of_fuel)
    have d: "deref (system_heap load_data) 13 = Inr ?crew"
      by (simp add: deref_def NULL_def load_data_systems)
    from r have re: "reached (system_thread 1 13 load_data) w'" by (simp add: reached_Inl)
    have hi: "heap_inv (resource_heap w')"
      by (rule t_system_thread [OF conjI, OF d re, THEN conjunct2, rule_format])
         (rule load_data_heap_inv)
    have "resources w' = [1, 2, 3, 4]"
      using r by (auto simp: system_thread_def system_run_defs constants_defs load_data_def
          event_queue_init_def)
    with s have h: "map (resource_heap w') [1, 2, 3, 4]
             = [Some \<lparr>name = ''Fuel'', amount = 1000, max_capacity = 1000\<rparr>,
                Some \<lparr>name = ''Oxygen'', amount = 15, max_capacity = 50\<rparr>,
                Some \<lparr>name = ''Energy'', amount = 30, max_capacity = 50\<rparr>,
                Some \<lparr>name = ''Distance'', amount = 0, max_capacity = 1000\<rparr>]"
      by simp
    show ?thesis by (intro exI conjI) (fact r, fact hi, fact h)
  qed
  show ?thesis
    by (intro conjI)
       (fact inv, fact into, fact i1, fact "from", fact i2, fact mgr, fact mth, fact run,
        fact ret, fact thr)
qed

lemma system_run_null_input:
  assumes "deref (system_heap w) p = Inr sys" and "input (recipe sys) = NULL"
    and "0 <s input_amount (recipe sys)" and "mode sys \<noteq> MODE_TERMINATE"
  shows "system_run (Suc fuel) p w = Inl Segfault"
  using assms by (simp add: system_run_def system_run_pull_body_def deref_def system_get_mode_def)


text \<open>
  C6. The input loop of \<open>system_run\<close> is guarded by \<open>amount_to_pull\<close> and the mode only. For
  a system with no input resource, a positive \<open>input_amount\<close> and a mode other than
  Terminate, the first pass calls \<open>resource_transfer_from\<close> on \<^verbatim>\<open>NULL\<close>: the call faults.
\<close>

theorem input_less_recipe_faults:
  "input (recipe_init NULL 3 5 9 200) = NULL
   \<and> system_run (Suc fuel) 15 solar_panel = Inl Segfault"
proof -
  have "deref (system_heap solar_panel) 15
      = Inr \<lparr>sname = ''Solar Panel'', recipe = recipe_init NULL 3 5 9 200, mode = MODE_STANDARD\<rparr>"
    by (simp add: deref_def solar_panel_def NULL_def)
  then have "system_run (Suc fuel) 15 solar_panel = Inl Segfault"
    by (rule system_run_null_input)
       (simp_all add: recipe_init_def word_sless_alt MODE_STANDARD_def MODE_TERMINATE_def)
  then show ?thesis by (simp add: recipe_init_def)
qed










lemma produced_in_cycle_events:
  assumes "e \<in> set (cycle_events p sys)" and "status e = EVENT_PRODUCED"
  shows "e = event_init p (input (recipe sys)) EVENT_PRODUCED"
  using assms by (auto simp: cycle_events_def event_init_def constants_defs)

text \<open>
  C10, as the code has it. The processing step pushes one event: Produced, naming the
  system and the recipe's input resource. The events that a call of \<open>system_run\<close> has
  pushed, in the state it returns or the state it runs out of fuel in, are among the five
  cycle events of the system; a Produced one among them names the system and the recipe's
  input resource, and so names the output resource exactly when input and output are the
  same resource.
\<close>

theorem produced_event_carries_input:
  "event_queue (system_run_process p sys w)
     = event_queue_push (event_queue w) (event_init p (input (recipe sys)) EVENT_PRODUCED)
   \<and> system (event_init p (input (recipe sys)) EVENT_PRODUCED) = p
   \<and> resource (event_init p (input (recipe sys)) EVENT_PRODUCED) = input (recipe sys)
   \<and> (\<forall>fuel w'. deref (system_heap w) p = Inr sys \<and> reached (system_run fuel p w) w' \<longrightarrow>
        (\<exists>es. event_queue w' = emit (event_queue w) es
          \<and> (\<forall>e\<in>set es. status e = EVENT_PRODUCED \<longrightarrow>
                 system e = p \<and> resource e = input (recipe sys)
                 \<and> (resource e = output (recipe sys)
                      \<longleftrightarrow> input (recipe sys) = output (recipe sys)))))"
proof (intro conjI allI impI)
  show "event_queue (system_run_process p sys w)
     = event_queue_push (event_queue w) (event_init p (input (recipe sys)) EVENT_PRODUCED)"
    by (rule system_run_process_facts)
  show "system (event_init p (input (recipe sys)) EVENT_PRODUCED) = p"
    by (simp add: event_init_def)
  show "resource (event_init p (input (recipe sys)) EVENT_PRODUCED) = input (recipe sys)"
    by (simp add: event_init_def)
next
  fix fuel w'
  assume a: "deref (system_heap w) p = Inr sys \<and> reached (system_run fuel p w) w'"
  then have "cycle_step p sys w w'" using system_run_reach(1) by blast
  then obtain es where
    es: "set es \<subseteq> set (cycle_events p sys)" "event_queue w' = emit (event_queue w) es"
    unfolding cycle_step_def by blast
  have "system e = p \<and> resource e = input (recipe sys)
        \<and> (resource e = output (recipe sys) \<longleftrightarrow> input (recipe sys) = output (recipe sys))"
    if "e \<in> set es" "status e = EVENT_PRODUCED" for e
  proof -
    from that es(1) have "e = event_init p (input (recipe sys)) EVENT_PRODUCED"
      using produced_in_cycle_events by blast
    then show ?thesis by (simp add: event_init_def)
  qed
  with es(2) show "\<exists>es. event_queue w' = emit (event_queue w) es
          \<and> (\<forall>e\<in>set es. status e = EVENT_PRODUCED \<longrightarrow>
                 system e = p \<and> resource e = input (recipe sys)
                 \<and> (resource e = output (recipe sys)
                      \<longleftrightarrow> input (recipe sys) = output (recipe sys)))" by blast
qed

theorem produced_event_carries_input_witness:
  "\<exists>w'. system_run 2 11 near_destination = Inl (Out_of_fuel w')
      \<and> event_queue w' = [event_init 11 4 EVENT_CAPACITY, event_init 11 4 EVENT_CAPACITY,
                           event_init 11 1 EVENT_PRODUCED]
      \<and> input (recipe_init 1 4 5 25 500) = 1
      \<and> (\<exists>es. event_queue w' = emit (event_queue near_destination) es
            \<and> (\<forall>e\<in>set es. status e = EVENT_PRODUCED \<longrightarrow> system e = 11 \<and> resource e = 1))"
proof -
  let ?propulsion = "\<lparr>sname = ''Propulsion'', recipe = recipe_init 1 4 5 25 500,
                       mode = MODE_STANDARD\<rparr>"
  have d: "deref (system_heap near_destination) 11 = Inr ?propulsion"
    by (simp add: deref_def NULL_def near_destination_def load_data_systems)
  from near_destination_cycle obtain w' where
    r: "system_run 2 11 near_destination = Inl (Out_of_fuel w')"
    and "trace w' = [Usleep 500000, Usleep 500000, Usleep 500000]"
    and q: "event_queue w' = [event_init 11 4 EVENT_CAPACITY, event_init 11 4 EVENT_CAPACITY,
             event_init 11 1 EVENT_PRODUCED]"
    and "map (resource_heap w') (resources w')
             = [Some \<lparr>name = ''Fuel'', amount = 995, max_capacity = 1000\<rparr>,
                Some \<lparr>name = ''Oxygen'', amount = 20, max_capacity = 50\<rparr>,
                Some \<lparr>name = ''Energy'', amount = 30, max_capacity = 50\<rparr>,
                Some \<lparr>name = ''Distance'', amount = 1000, max_capacity = 1000\<rparr>]"
    by (rule summary_out_of_fuel)
  from r have re: "reached (system_run 2 11 near_destination) w'" by (simp add: reached_Inl)
  have i: "input (recipe_init 1 4 5 25 500) = 1" by (simp add: recipe_init_def)
  note t = produced_event_carries_input [of 11 ?propulsion near_destination,
      THEN conjunct2, THEN conjunct2, THEN conjunct2, rule_format, OF conjI [OF d re]]
  from t obtain es where
    e1: "event_queue w' = emit (event_queue near_destination) es"
    and e2: "\<forall>e\<in>set es. status e = EVENT_PRODUCED \<longrightarrow> system e = 11 \<and> resource e = 1"
    using i by auto
  show ?thesis by (intro exI conjI) (fact r, fact q, fact i, fact e1, fact e2)
qed

text \<open>
  A Produced event can name the resource that was produced: it does when a recipe's input
  and output are the same resource.
\<close>

theorem produced_event_names_output:
  "summary (system_run 1 15 recycler)
     = Some (True, [Usleep 100000],
            [event_init 15 3 EVENT_HIGH, event_init 15 3 EVENT_PRODUCED],
            [Some \<lparr>name = ''Fuel'', amount = 1000, max_capacity = 1000\<rparr>,
             Some \<lparr>name = ''Oxygen'', amount = 20, max_capacity = 50\<rparr>,
             Some \<lparr>name = ''Energy'', amount = 30, max_capacity = 50\<rparr>,
             Some \<lparr>name = ''Distance'', amount = 0, max_capacity = 1000\<rparr>])
   \<and> status (event_init 15 3 EVENT_PRODUCED) = EVENT_PRODUCED
   \<and> resource (event_init 15 3 EVENT_PRODUCED) = output (recipe_init 3 3 5 5 100)"
  by (simp add: summary_def system_run_defs constants_defs recycler_def load_data_def
      event_queue_init_def)

end
